theory Spec2Isabelle
  imports Complex_Main "HOL-Library.Sublist" "HOL-Library.AList"
begin

section \<open>Python strings\<close>

text \<open>
  A Python \<open>str\<close> is modelled as a \<open>string\<close>: a list of characters, each read as a
  code point below 256. The operators used by the scrapers are written out below.
\<close>

text \<open>\<open>sub in s\<close>: the substring test.\<close>

fun contains :: "string \<Rightarrow> string \<Rightarrow> bool" where
  "contains sub [] = (sub = [])"
| "contains sub (c # cs) = (prefix sub (c # cs) \<or> contains sub cs)"

text \<open>\<open>sep.join(xs)\<close>.\<close>

fun join :: "string \<Rightarrow> string list \<Rightarrow> string" where
  "join sep [] = []"
| "join sep [x] = x"
| "join sep (x # y # ys) = x @ sep @ join sep (y # ys)"

section \<open>Lookup tables (config/mappings)\<close>

text \<open>
  A mapping module is a dict literal from label to code. It is kept as the list of its
  items in source order; \<open>TABLE.get(label)\<close> is \<open>map_of\<close> on that list.
\<close>

type_synonym code_table = "(string \<times> string) list"

definition SCHOOL_MAP :: code_table where
  "SCHOOL_MAP =
    [(''Allied Health'', ''AH''),
     (''Blair School of Music'', ''BLAIR''),
     (''College of Arts and Science'', ''A&S''),
     (''College of Connected Computing'', ''CCC''),
     (''Divinity School'', ''DIV''),
     (''Division Unclassified Studies'', ''DUS''),
     (''Fisk University'', ''FISK''),
     (''Graduate School'', ''GS''),
     (''Law School'', ''LAW''),
     (''Lipscomb'', ''LU''),
     (''Meharry Medical College'', ''MEHRY''),
     (''Owen Grad School of Management'', ''OGSM''),
     (''Peabody College'', ''PBDY''),
     (''School of Engineering'', ''ENGIN''),
     (''School of Medicine'', ''MED''),
     (''School of Nursing'', ''NURS''),
     (''Sewanee: The Univ of the South'', ''SEW''),
     (''Tennessee State University'', ''TSU''),
     (''Vanderbilt'', ''VANDY'')]"

definition CAREER_MAP :: code_table where
  "CAREER_MAP =
    [(''Consortium'', ''CN''),
     (''Distance Learning Programs'', ''DLP''),
     (''Div of Unclassified Studies'', ''DUS''),
     (''Divinity'', ''DIV''),
     (''Divinity Doctorate'', ''DD''),
     (''Engineering-Professional'', ''ENGP''),
     (''Graduate'', ''GRAD''),
     (''Law'', ''LAW''),
     (''Medical Doctor'', ''MEDD''),
     (''Medical Masters/Prof Doctoral'', ''MEDM''),
     (''Nursing'', ''NURS''),
     (''Owen Management'', ''GSM''),
     (''Peabody-Professional'', ''PBDP''),
     (''Undergraduate'', ''UGRD'')]"

definition COMPONENT_MAP :: code_table where
  "COMPONENT_MAP =
    [(''Art Studio'', ''STD''),
     (''Class'', ''CLS''),
     (''Clerkship'', ''CL''),
     (''Clinical'', ''CLN''),
     (''Directed Study'', ''DIR''),
     (''Discussion'', ''DSC''),
     (''Dissertation Research'', ''DIS''),
     (''Drill'', ''DRI''),
     (''Externship'', ''EXT''),
     (''Field Studies'', ''FLD''),
     (''Field Work'', ''FW''),
     (''Freshman Seminars'', ''FWS''),
     (''Independent Study'', ''IND''),
     (''Internship'', ''INT''),
     (''Laboratory'', ''LAB''),
     (''Lecture'', ''LEC''),
     (''Lecture and Discussion'', ''LDC''),
     (''Lecture and Lab'', ''LLB''),
     (''Lecture and Performance'', ''LPR''),
     (''Lecture-Tech Based Instruction'', ''LTI''),
     (''Masters Thesis Research'', ''THS''),
     (''Methods'', ''MTH''),
     (''Online Learning'', ''ONL''),
     (''Performance'', ''PER''),
     (''Practicum'', ''PRC''),
     (''Project'', ''PRJ''),
     (''Publications'', ''PUB''),
     (''Research'', ''RES''),
     (''Selected/Special Topics'', ''STP''),
     (''Seminar'', ''SEM''),
     (''Senior Scholar'', ''SSC''),
     (''Senior Thesis'', ''SRT''),
     (''Studies'', ''STU''),
     (''Subinternship'', ''SUB''),
     (''Supervision'', ''SUP''),
     (''Test 1'', ''TS1''),
     (''Test 2'', ''TS2''),
     (''Thesis Research'', ''THE'')]"

datatype category = School | Career | Component | Subject | Attribute



section \<open>Course catalog: term decomposition (extract_course_details)\<close>

text \<open>
  The four independent \<open>if ... in term: terms.append(...)\<close> statements followed by
  \<open>", ".join(terms)\<close>; the list \<open>terms\<close> is threaded through the four statements.
\<close>

definition term_tokens :: "string \<Rightarrow> string list" where
  "term_tokens term =
     (let terms = [];
          terms = (if contains ''Fall'' term then terms @ [''FA''] else terms);
          terms = (if contains ''Spring'' term then terms @ [''SP''] else terms);
          terms = (if contains ''Summer'' term then terms @ [''SU''] else terms);
          terms = (if contains ''Alternate Years'' term then terms @ [''ALT''] else terms)
      in terms)"

definition term_offered :: "string \<Rightarrow> string" where
  "term_offered term = join '', '' (term_tokens term)"

text \<open>The rule table the claim describes: label substring and short token, in check order.\<close>

definition term_rules :: "(string \<times> string) list" where
  "term_rules =
     [(''Fall'', ''FA''), (''Spring'', ''SP''), (''Summer'', ''SU''), (''Alternate Years'', ''ALT'')]"

section \<open>Python values and exceptions\<close>

text \<open>
  What \<open>json.load\<close> returns: \<open>None\<close>, \<open>bool\<close>, \<open>int\<close>, \<open>float\<close>, \<open>str\<close>, \<open>list\<close>
  and \<open>dict\<close>. A dict is the list of its items in insertion order, its keys distinct.
  The same type holds the values of an output row.
\<close>

datatype pyfloat = Finite rat | PosInf | NegInf | NaN

datatype json =
    JNull
  | JBool bool
  | JInt int
  | JFloat pyfloat
  | JStr string
  | JList "json list"
  | JDict "(string \<times> json) list"

type_synonym row = "(string \<times> json) list"

datatype py_error = AttributeError | TypeError | ValueError | IndexError

text \<open>An exception aborts the statements that follow it.\<close>

definition bind_err :: "'e + 'a \<Rightarrow> ('a \<Rightarrow> 'e + 'b) \<Rightarrow> 'e + 'b" where
  "bind_err m f = (case m of Inl e \<Rightarrow> Inl e | Inr x \<Rightarrow> f x)"

text \<open>
  \<open>for x in xs: body\<close>, where the body updates the accumulator \<open>rows\<close> (by
  \<open>rows.append\<close> or \<open>rows.extend\<close>) or raises.
\<close>

fun for_loop :: "'a list \<Rightarrow> ('a \<Rightarrow> 's \<Rightarrow> 'e + 's) \<Rightarrow> 's \<Rightarrow> 'e + 's" where
  "for_loop [] body s = Inr s"
| "for_loop (x # xs) body s = bind_err (body x s) (for_loop xs body)"

text \<open>\<open>bool(v)\<close>.\<close>

fun truthy :: "json \<Rightarrow> bool" where
  "truthy JNull = False"
| "truthy (JBool b) = b"
| "truthy (JInt i) = (i \<noteq> 0)"
| "truthy (JFloat f) = (f \<noteq> Finite 0)"
| "truthy (JStr s) = (s \<noteq> [])"
| "truthy (JList xs) = (xs \<noteq> [])"
| "truthy (JDict kv) = (kv \<noteq> [])"

text \<open>
  \<open>obj.get(key, default)\<close> and \<open>obj.get(key)\<close>: only a dict has the method, any other
  value raises AttributeError.
\<close>

fun py_get_default :: "json \<Rightarrow> string \<Rightarrow> json \<Rightarrow> py_error + json" where
  "py_get_default (JDict kv) key dflt =
     Inr (case map_of kv key of Some v \<Rightarrow> v | None \<Rightarrow> dflt)"
| "py_get_default _ key dflt = Inl AttributeError"

definition py_get :: "json \<Rightarrow> string \<Rightarrow> py_error + json" where
  "py_get obj key = py_get_default obj key JNull"

text \<open>
  The items a \<open>for\<close> statement visits: the elements of a list, the characters of a
  string, the keys of a dict; any other value raises TypeError.
\<close>

fun py_iter :: "json \<Rightarrow> py_error + json list" where
  "py_iter (JList xs) = Inr xs"
| "py_iter (JStr s) = Inr (map (\<lambda>c. JStr [c]) s)"
| "py_iter (JDict kv) = Inr (map (\<lambda>(k, v). JStr k) kv)"
| "py_iter _ = Inl TypeError"

text \<open>
  A dict display \<open>{**d, k1: v1, ..., kn: vn}\<close>: a copy of \<open>d\<close>, then the keys set from
  left to right; a key already present keeps its place and takes the new value.
\<close>

definition dict_display :: "row \<Rightarrow> (string \<times> json) list \<Rightarrow> row" where
  "dict_display d items = foldl (\<lambda>acc (k, v). AList.update k v acc) d items"

section \<open>Requirement normalizer, detail mode (convert_requirements_to_csv.py)\<close>

definition course_row :: "row \<Rightarrow> json \<Rightarrow> py_error + row" where
  "course_row base_row_data course =
     bind_err (py_get course ''termTaken'') (\<lambda>term_taken.
     bind_err (py_get course ''courseId'') (\<lambda>course_id.
     bind_err (py_get course ''unitsEarned'') (\<lambda>units_earned.
     bind_err (py_get course ''unitsTaken'') (\<lambda>units_taken.
     bind_err (py_get course ''longTitle'') (\<lambda>long_title.
     bind_err (py_get course ''grade'') (\<lambda>grade.
     bind_err (py_get course ''sequence'') (\<lambda>sequence.
     bind_err (py_get course ''subject'') (\<lambda>subject.
     bind_err (py_get course ''catalogNumber'') (\<lambda>catalog_number.
     bind_err (py_get course ''displayName'') (\<lambda>display_name.
     Inr (dict_display base_row_data
       [(''term_taken'', term_taken),
        (''course_id'', course_id),
        (''units_earned'', units_earned),
        (''units_taken'', units_taken),
        (''long_title'', long_title),
        (''grade'', grade),
        (''sequence'', sequence),
        (''subject'', subject),
        (''catalog_number'', catalog_number),
        (''display_name'', display_name)])))))))))))"

definition empty_course_row :: "row \<Rightarrow> row" where
  "empty_course_row base_row_data =
     dict_display base_row_data
       [(''term_taken'', JNull),
        (''course_id'', JNull),
        (''units_earned'', JNull),
        (''units_taken'', JNull),
        (''long_title'', JNull),
        (''grade'', JNull),
        (''sequence'', JNull),
        (''subject'', JNull),
        (''catalog_number'', JNull),
        (''display_name'', JNull)]"

definition process_requirement_line :: "row \<Rightarrow> json \<Rightarrow> py_error + row list" where
  "process_requirement_line shared_data line =
     bind_err (py_get line ''description'') (\<lambda>description.
     bind_err (py_get line ''status'') (\<lambda>status.
     bind_err (py_get line ''unitsRequired'') (\<lambda>units_required.
     bind_err (py_get line ''unitsUsed'') (\<lambda>units_used.
     bind_err (py_get line ''unitsNeeded'') (\<lambda>units_needed.
       let base_row_data = dict_display shared_data
             [(''description'', description),
              (''status'', status),
              (''units_required'', units_required),
              (''units_used'', units_used),
              (''units_needed'', units_needed)]
       in
     bind_err (py_get_default line ''coursesUsedToSatisfy'' (JList [])) (\<lambda>courses.
       if truthy courses then
         bind_err (py_iter courses) (\<lambda>items.
           for_loop items
             (\<lambda>course rows. bind_err (course_row base_row_data course) (\<lambda>r. Inr (rows @ [r])))
             [])
       else Inr [empty_course_row base_row_data]))))))"

text \<open>
  \<open>convert_requirements_to_csv\<close> is four nested \<open>for\<close> loops over one accumulator
  \<open>rows\<close>. Each loop body is a definition named after its loop variable; the variables
  assigned in the enclosing bodies that it reads are its first arguments.
\<close>

definition detail_for_requirement :: "json \<Rightarrow> json \<Rightarrow> json \<Rightarrow> row list \<Rightarrow> py_error + row list" where
  "detail_for_requirement group_name is_main_requirement requirement rows =
     bind_err (py_get_default requirement ''requirementLines'' (JList [])) (\<lambda>requirement_lines.
     bind_err (py_get requirement ''name'') (\<lambda>requirement_name.
       let shared_data = dict_display []
             [(''group_name'', group_name),
              (''is_main_requirement'', is_main_requirement),
              (''requirement_name'', requirement_name)]
       in
     bind_err (py_iter requirement_lines) (\<lambda>lines.
     for_loop lines
       (\<lambda>line rows.
          bind_err (process_requirement_line shared_data line) (\<lambda>line_rows.
          Inr (rows @ line_rows)))
       rows)))"

definition detail_for_req_group :: "json \<Rightarrow> row list \<Rightarrow> py_error + row list" where
  "detail_for_req_group req_group rows =
     bind_err (py_get_default req_group ''name'' (JStr ''Unnamed Requirement Group'')) (\<lambda>group_name.
     bind_err (py_get req_group ''plan'') (\<lambda>plan.
       let is_main_requirement = JBool (truthy plan) in
     bind_err (py_get_default req_group ''requirements'' (JList [])) (\<lambda>requirements.
     bind_err (py_iter requirements) (\<lambda>reqs.
     for_loop reqs (detail_for_requirement group_name is_main_requirement) rows))))"

definition detail_for_requirement_group :: "json \<Rightarrow> row list \<Rightarrow> py_error + row list" where
  "detail_for_requirement_group requirement_group rows =
     bind_err (py_get_default requirement_group ''requirementGroups'' (JList [])) (\<lambda>requirement_list.
     bind_err (py_iter requirement_list) (\<lambda>req_groups.
     for_loop req_groups detail_for_req_group rows))"

definition convert_requirements_to_csv :: "json \<Rightarrow> py_error + row list" where
  "convert_requirements_to_csv json_data =
     bind_err (py_iter json_data) (\<lambda>tops.
     for_loop tops detail_for_requirement_group [])"

section \<open>Requirement normalizer, structure mode (extract_requirement_structure.py)\<close>

text \<open>The same four loops; the innermost body appends one row per line.\<close>

definition structure_for_line ::
  "json \<Rightarrow> json \<Rightarrow> json \<Rightarrow> json \<Rightarrow> json \<Rightarrow> json \<Rightarrow> json \<Rightarrow> row list \<Rightarrow> py_error + row list" where
  "structure_for_line req_group_number entry_sequence req_number req_entry_sequence
       group_name is_main_requirement line rows =
     bind_err (py_get line ''name'') (\<lambda>line_name.
     bind_err (py_get line ''description'') (\<lambda>description.
     bind_err (py_get line ''status'') (\<lambda>status.
     bind_err (py_get line ''unitsRequired'') (\<lambda>units_required.
     bind_err (py_get line ''unitsUsed'') (\<lambda>units_used.
     bind_err (py_get line ''unitsNeeded'') (\<lambda>units_needed.
     Inr (rows @ [dict_display []
       [(''requirement_group_number'', req_group_number),
        (''entry_sequence'', entry_sequence),
        (''requirement_number'', req_number),
        (''requirement_entry_sequence'', req_entry_sequence),
        (''group_name'', group_name),
        (''is_main_requirement'', is_main_requirement),
        (''line_name'', line_name),
        (''description'', description),
        (''status'', status),
        (''units_required'', units_required),
        (''units_used'', units_used),
        (''units_needed'', units_needed)]])))))))"

definition structure_for_requirement ::
  "json \<Rightarrow> json \<Rightarrow> json \<Rightarrow> json \<Rightarrow> json \<Rightarrow> row list \<Rightarrow> py_error + row list" where
  "structure_for_requirement req_group_number entry_sequence group_name is_main_requirement
       requirement rows =
     bind_err (py_get_default requirement ''requirementLines'' (JList [])) (\<lambda>requirement_lines.
     bind_err (py_get requirement ''requirementNumber'') (\<lambda>req_number.
     bind_err (py_get requirement ''entrySequence'') (\<lambda>req_entry_sequence.
     bind_err (py_iter requirement_lines) (\<lambda>lines.
     for_loop lines
       (structure_for_line req_group_number entry_sequence req_number req_entry_sequence
          group_name is_main_requirement)
       rows))))"

definition structure_for_req_group :: "json \<Rightarrow> row list \<Rightarrow> py_error + row list" where
  "structure_for_req_group req_group rows =
     bind_err (py_get_default req_group ''name'' (JStr ''Unnamed Requirement Group'')) (\<lambda>group_name.
     bind_err (py_get req_group ''requirementGroupNumber'') (\<lambda>req_group_number.
     bind_err (py_get req_group ''entrySequence'') (\<lambda>entry_sequence.
     bind_err (py_get req_group ''plan'') (\<lambda>plan.
       let is_main_requirement = JBool (truthy plan) in
     bind_err (py_get_default req_group ''requirements'' (JList [])) (\<lambda>requirements.
     bind_err (py_iter requirements) (\<lambda>reqs.
     for_loop reqs
       (structure_for_requirement req_group_number entry_sequence group_name is_main_requirement)
       rows))))))"

definition structure_for_requirement_group :: "json \<Rightarrow> row list \<Rightarrow> py_error + row list" where
  "structure_for_requirement_group requirement_group rows =
     bind_err (py_get_default requirement_group ''requirementGroups'' (JList [])) (\<lambda>requirement_list.
     bind_err (py_iter requirement_list) (\<lambda>req_groups.
     for_loop req_groups structure_for_req_group rows))"

definition extract_requirement_structure :: "json \<Rightarrow> py_error + row list" where
  "extract_requirement_structure json_data =
     bind_err (py_iter json_data) (\<lambda>tops.
     for_loop tops structure_for_requirement_group [])"

section \<open>Course catalog: requirement text (extract_requirement_text)\<close>

text \<open>
  \<open>s.split(sep, 1)\<close> for a non-empty \<open>sep\<close>: the text before and after the first
  occurrence of \<open>sep\<close>, or \<open>None\<close> when \<open>sep\<close> does not occur (the result list then
  has the single element \<open>s\<close>).
\<close>

fun split_first :: "string \<Rightarrow> string \<Rightarrow> (string \<times> string) option" where
  "split_first sep [] = None"
| "split_first sep (c # cs) =
     (if prefix sep (c # cs) then Some ([], drop (length sep) (c # cs))
      else map_option (\<lambda>(before, after). (c # before, after)) (split_first sep cs))"



text \<open>
  The code points below 256 for which \<open>str.isspace\<close> holds; they are also what \<open>\s\<close>
  matches in a \<open>str\<close> pattern.
\<close>

definition whitespace :: string where
  "whitespace =
     [CHR 0x09, CHR 0x0A, CHR 0x0B, CHR 0x0C, CHR 0x0D,
      CHR 0x1C, CHR 0x1D, CHR 0x1E, CHR 0x1F, CHR 0x20, CHR 0x85, CHR 0xA0]"

definition is_space :: "char \<Rightarrow> bool" where
  "is_space c = (c \<in> set whitespace)"

text \<open>\<open>s.strip()\<close>.\<close>

definition strip :: "string \<Rightarrow> string" where
  "strip s = rev (dropWhile is_space (rev (dropWhile is_space s)))"





section \<open>Class sections: header parsing (parse_class_header)\<close>

text \<open>
  The two patterns of \<open>parse_class_header\<close> are written out as the matcher runs them.
  A match of \<open>\s*:\s*\<close> at the start of \<open>s\<close>: the greedy whitespace run, a colon, the
  greedy whitespace run; the result is the text after the match. (Giving back
  whitespace cannot help: the character after a shorter run is whitespace, not a colon.)
\<close>

definition match_colon :: "string \<Rightarrow> string option" where
  "match_colon s =
     (case dropWhile is_space s of
        c # rest \<Rightarrow> if c = CHR '':'' then Some (dropWhile is_space rest) else None
      | [] \<Rightarrow> None)"

text \<open>
  \<open>re.split(r"\s*:\s*", s, maxsplit=1)\<close>: the leftmost position where the pattern
  matches splits the text; with no match the list has the single element \<open>s\<close>.
\<close>

fun search_colon :: "string \<Rightarrow> (string \<times> string) option" where
  "search_colon [] = None"
| "search_colon (c # cs) =
     (case match_colon (c # cs) of
        Some rest \<Rightarrow> Some ([], rest)
      | None \<Rightarrow> map_option (\<lambda>(before, after). (c # before, after)) (search_colon cs))"

definition re_split_colon :: "string \<Rightarrow> string list" where
  "re_split_colon s = (case search_colon s of Some (before, after) \<Rightarrow> [before, after] | None \<Rightarrow> [s])"

text \<open>The character classes \<open>[A-Z]\<close>, \<open>\d\<close> (on code points below 256) and \<open>[A-Z\d]\<close>.\<close>

definition is_upper :: "char \<Rightarrow> bool" where
  "is_upper c = (c \<in> set ''ABCDEFGHIJKLMNOPQRSTUVWXYZ'')"

definition is_digit :: "char \<Rightarrow> bool" where
  "is_digit c = (c \<in> set ''0123456789'')"

definition is_upper_or_digit :: "char \<Rightarrow> bool" where
  "is_upper_or_digit c = (is_upper c \<or> is_digit c)"

text \<open>
  A greedy bounded repetition \<open>[class]{lo,hi}\<close> at the start of \<open>s\<close>: the ways to
  split off the matched text, in the order the backtracking matcher tries them, longest
  first.
\<close>

definition repeat_class :: "(char \<Rightarrow> bool) \<Rightarrow> nat \<Rightarrow> nat \<Rightarrow> string \<Rightarrow> (string \<times> string) list" where
  "repeat_class p lo hi s =
     (let n = min hi (length (takeWhile p s))
      in map (\<lambda>k. (take k s, drop k s)) (rev [lo ..< Suc n]))"

text \<open>The first alternative for which the rest of the pattern matches.\<close>

fun first_some :: "('a \<Rightarrow> 'b option) \<Rightarrow> 'a list \<Rightarrow> 'b option" where
  "first_some f [] = None"
| "first_some f (x # xs) = (case f x of Some y \<Rightarrow> Some y | None \<Rightarrow> first_some f xs)"

text \<open>A literal character of the pattern.\<close>

definition literal :: "char \<Rightarrow> string \<Rightarrow> string option" where
  "literal c s = (case s of x # rest \<Rightarrow> if x = c then Some rest else None | [] \<Rightarrow> None)"

text \<open>\<open>(\d{2})\<close>: exactly two digits; whatever follows them is not looked at.\<close>

definition two_digits :: "string \<Rightarrow> string option" where
  "two_digits s =
     (case s of
        d1 # d2 # rest \<Rightarrow> if is_digit d1 \<and> is_digit d2 then Some [d1, d2] else None
      | _ \<Rightarrow> None)"

text \<open>
  \<open>re.match(r"([A-Z]{2,6})-([A-Z\d]{4,6})-(\d{2})", left_part)\<close>: anchored at the start
  only. The result is \<open>match.groups()\<close>.
\<close>

definition match_header :: "string \<Rightarrow> (string \<times> string \<times> string) option" where
  "match_header left_part =
     first_some
       (\<lambda>(subject, r1).
          case literal CHR ''-'' r1 of
            None \<Rightarrow> None
          | Some r2 \<Rightarrow>
              first_some
                (\<lambda>(catalog_number, r3).
                   case literal CHR ''-'' r3 of
                     None \<Rightarrow> None
                   | Some r4 \<Rightarrow>
                       (case two_digits r4 of
                          None \<Rightarrow> None
                        | Some section_number \<Rightarrow> Some (subject, catalog_number, section_number)))
                (repeat_class is_upper_or_digit 4 6 r2))
       (repeat_class is_upper 2 6 left_part)"

record class_header =
  subject :: string
  catalog_number :: string
  section_number :: string
  display_name :: string
  long_title :: string

definition left_part_of :: "string \<Rightarrow> string" where
  "left_part_of header_text = strip (hd (re_split_colon header_text))"

definition long_title_of :: "string \<Rightarrow> string" where
  "long_title_of header_text =
     (let split_parts = re_split_colon header_text
      in if length split_parts > 1 then strip (split_parts ! 1) else [])"

definition parse_class_header :: "string \<Rightarrow> class_header option" where
  "parse_class_header header_text =
     (let left_part = left_part_of header_text;
          title = long_title_of header_text
      in case match_header left_part of
           None \<Rightarrow> None
         | Some (subj, cat, sec) \<Rightarrow>
             Some \<lparr>subject = subj,
                   catalog_number = cat,
                   section_number = sec,
                   display_name = subj @ ''-'' @ cat,
                   long_title = title\<rparr>)"

text \<open>
  The strict shape of the claim: \<open>SUBJ-CAT-SEC\<close> with 2 to 6 uppercase letters, 4 to 6
  uppercase letters or digits, and exactly 2 digits. A text has the shape when it is
  those three parts joined by hyphens, and starts with the shape when a prefix of it has.
\<close>

definition shape_parts :: "string \<Rightarrow> string \<Rightarrow> string \<Rightarrow> bool" where
  "shape_parts subj cat sec \<longleftrightarrow>
     2 \<le> length subj \<and> length subj \<le> 6 \<and> list_all is_upper subj
     \<and> 4 \<le> length cat \<and> length cat \<le> 6 \<and> list_all is_upper_or_digit cat
     \<and> length sec = 2 \<and> list_all is_digit sec"

definition has_strict_shape :: "string \<Rightarrow> bool" where
  "has_strict_shape s \<longleftrightarrow>
     (\<exists>subj cat sec. s = subj @ ''-'' @ cat @ ''-'' @ sec \<and> shape_parts subj cat sec)"

definition starts_with_shape :: "string \<Rightarrow> bool" where
  "starts_with_shape s \<longleftrightarrow> (\<exists>p rest. s = p @ rest \<and> has_strict_shape p)"

section \<open>Course catalog: candidates of a search result (extract_course_ids, main)\<close>

text \<open>
  \<open>re.findall\<close> scans the text from the left: where the pattern matches it records the
  groups and goes on after the match, elsewhere it moves one character on. The matcher
  \<open>m\<close> gives the groups and the text after the match. Both patterns below consume at
  least one character; the branch for a match that consumes nothing moves one character
  on, as \<open>re\<close> does.
\<close>

function findall :: "(string \<Rightarrow> ('a \<times> string) option) \<Rightarrow> string \<Rightarrow> 'a list" where
  "findall m s =
     (case m s of
        Some (g, rest) \<Rightarrow>
          if length rest < length s then g # findall m rest
          else (case s of [] \<Rightarrow> [g] | c # cs \<Rightarrow> g # findall m cs)
      | None \<Rightarrow> (case s of [] \<Rightarrow> [] | c # cs \<Rightarrow> findall m cs))"
  by pat_completeness auto
termination
  by (relation "measure (\<lambda>(m, s). length s)") auto

declare findall.simps [simp del]

text \<open>A literal piece of a pattern, and \<open>\d+\<close> where the next piece starts with a non-digit.\<close>

definition match_literal :: "string \<Rightarrow> string \<Rightarrow> string option" where
  "match_literal lit s = (if prefix lit s then Some (drop (length lit) s) else None)"

definition match_digits :: "string \<Rightarrow> (string \<times> string) option" where
  "match_digits s =
     (if takeWhile is_digit s = [] then None
      else Some (takeWhile is_digit s, dropWhile is_digit s))"

definition quote :: char where
  "quote = CHR 0x27"

text \<open>
  \<open>YAHOO\.mis\.student\.CourseDetailPanel\.showCourseDetail\('(\d+)', '(\d+)', notificationString\);\<close>
\<close>

definition match_course_id :: "string \<Rightarrow> ((string \<times> string) \<times> string) option" where
  "match_course_id s =
     (case match_literal (''YAHOO.mis.student.CourseDetailPanel.showCourseDetail('' @ [quote]) s of
        None \<Rightarrow> None
      | Some r1 \<Rightarrow>
          (case match_digits r1 of
             None \<Rightarrow> None
           | Some (course_id, r2) \<Rightarrow>
               (case match_literal ([quote] @ '', '' @ [quote]) r2 of
                  None \<Rightarrow> None
                | Some r3 \<Rightarrow>
                    (case match_digits r3 of
                       None \<Rightarrow> None
                     | Some (offer_num, r4) \<Rightarrow>
                         (case match_literal ([quote] @ '', notificationString);'') r4 of
                            None \<Rightarrow> None
                          | Some r5 \<Rightarrow> Some ((course_id, offer_num), r5))))))"

text \<open>
  \<open>var notificationString = '(.*?)';\<close>: the lazy group runs to the first \<open>';\<close> and,
  as \<open>.\<close> does not match a newline, must not cross one.
\<close>

definition match_notification :: "string \<Rightarrow> (string \<times> string) option" where
  "match_notification s =
     (case match_literal (''var notificationString = '' @ [quote]) s of
        None \<Rightarrow> None
      | Some r1 \<Rightarrow>
          (case split_first ([quote] @ '';'') r1 of
             None \<Rightarrow> None
           | Some (g, r2) \<Rightarrow> if CHR 0x0A \<in> set g then None else Some (g, r2)))"

text \<open>
  \<open>re.match(r"^(.*?)-\d+$", notification_string)\<close>. \<open>code_suffix\<close> is \<open>-\d+$\<close> at the
  start of \<open>s\<close>, where \<open>$\<close> also matches before a final newline; \<open>lazy_code\<close> extends
  the lazy group one character at a time (never over a newline) until the suffix
  matches, and returns the group.
\<close>

definition code_suffix :: "string \<Rightarrow> bool" where
  "code_suffix s =
     (case s of
        c # r \<Rightarrow>
          c = CHR ''-'' \<and> takeWhile is_digit r \<noteq> []
          \<and> (dropWhile is_digit r = [] \<or> dropWhile is_digit r = [CHR 0x0A])
      | [] \<Rightarrow> False)"

fun lazy_code :: "string \<Rightarrow> string option" where
  "lazy_code [] = None"
| "lazy_code (c # cs) =
     (if code_suffix (c # cs) then Some []
      else if c = CHR 0x0A then None
      else map_option ((#) c) (lazy_code cs))"

type_synonym candidate = "string \<times> string \<times> string option \<times> string option"

text \<open>The loop \<open>for i, (course_id, offer_num) in enumerate(ids)\<close>.\<close>

fun pair_candidates :: "nat \<Rightarrow> (string \<times> string) list \<Rightarrow> string list \<Rightarrow> candidate list" where
  "pair_candidates i [] notifications = []"
| "pair_candidates i ((course_id, offer_num) # ids) notifications =
     (let notification_string =
            (if i < length notifications then Some (notifications ! i) else None);
          verification_code =
            (case notification_string of Some ns \<Rightarrow> lazy_code ns | None \<Rightarrow> None)
      in (course_id, offer_num, notification_string, verification_code)
           # pair_candidates (Suc i) ids notifications)"

definition extract_course_ids :: "string \<Rightarrow> candidate list" where
  "extract_course_ids html =
     (let ids = findall match_course_id html;
          notifications = findall match_notification html
      in pair_candidates 0 ids notifications)"

text \<open>
  The loop of \<open>main\<close> over the candidates of one subject. \<open>course_detail\<close> stands for
  the body of the inner \<open>try\<close>: the detail request and \<open>extract_course_details\<close>, giving
  the row to write, or \<open>None\<close> when the extraction returns nothing or an exception is
  caught. \<open>written\<close> is the list of rows the CSV writer has received.
\<close>

fun process_entries ::
  "(string \<Rightarrow> string \<Rightarrow> string \<Rightarrow> 'r option) \<Rightarrow> string \<Rightarrow> candidate list \<Rightarrow> 'r list \<Rightarrow> 'r list" where
  "process_entries course_detail subject_code [] written = written"
| "process_entries course_detail subject_code
       ((course_id, offer_num, notification_string, verification_code) # entries) written =
     (if verification_code \<noteq> Some subject_code
      then process_entries course_detail subject_code entries written
      else
        (case course_detail subject_code course_id offer_num of
           Some course_data \<Rightarrow>
             process_entries course_detail subject_code entries (written @ [course_data])
         | None \<Rightarrow> process_entries course_detail subject_code entries written))"

text \<open>A trailing \<open>-<number>\<close>: a hyphen followed by one or more digits, up to the end.\<close>

definition trailing_number :: "string \<Rightarrow> bool" where
  "trailing_number s \<longleftrightarrow> (\<exists>ds. s = CHR ''-'' # ds \<and> ds \<noteq> [] \<and> list_all is_digit ds)"

text \<open>
  A search result with three course links and two notification strings.
\<close>

definition example_html :: string where
  "example_html =
     ''var notificationString = '' @ [quote] @ ''CS-1101'' @ [quote] @ '';'' @
     ''YAHOO.mis.student.CourseDetailPanel.showCourseDetail('' @ [quote] @ ''104533'' @ [quote]
       @ '', '' @ [quote] @ ''1'' @ [quote] @ '', notificationString); '' @
     ''var notificationString = '' @ [quote] @ ''MATH-1300'' @ [quote] @ '';'' @
     ''YAHOO.mis.student.CourseDetailPanel.showCourseDetail('' @ [quote] @ ''104600'' @ [quote]
       @ '', '' @ [quote] @ ''2'' @ [quote] @ '', notificationString); '' @
     ''YAHOO.mis.student.CourseDetailPanel.showCourseDetail('' @ [quote] @ ''104700'' @ [quote]
       @ '', '' @ [quote] @ ''1'' @ [quote] @ '', notificationString);''"

section \<open>Class sections: detail table and per-id scrape (scrape_class_sections.py)\<close>

text \<open>
  What the scraper reads from the parsed page: the text of the first \<open>h1\<close> as
  \<open>get_text(separator=" ")\<close> gives it (\<open>None\<close> when the page has no \<open>h1\<close>), and the first
  \<open>div\<close> of class \<open>detailPanel\<close> as the list of its \<open>tr\<close> rows, each row the list of the
  stripped texts of its \<open>td\<close> cells (\<open>None\<close> when the page has no such \<open>div\<close>).
\<close>

record soup =
  h1 :: "string option"
  detail_panel :: "string list list option"

text \<open>
  The exceptions of class \<open>Exception\<close> that the body of the \<open>try\<close> can raise: those of
  \<open>requests\<close> (connection errors, timeouts) and any other.
\<close>

datatype exn = RequestException | OtherException

definition opt_str :: "string option \<Rightarrow> json" where
  "opt_str v = (case v of Some s \<Rightarrow> JStr s | None \<Rightarrow> JNull)"

definition opt_float :: "pyfloat option \<Rightarrow> json" where
  "opt_float v = (case v of Some f \<Rightarrow> JFloat f | None \<Rightarrow> JNull)"

text \<open>
  One pass of the loop over the rows of the panel; the state is the four variables
  \<open>school, career, component, hours\<close>. \<open>float_of\<close> is \<open>float(value)\<close>, with \<open>None\<close> for
  ValueError.
\<close>

definition detail_row_step ::
  "(string \<Rightarrow> pyfloat option) \<Rightarrow>
   string option \<times> string option \<times> string option \<times> pyfloat option \<Rightarrow> string list \<Rightarrow>
   string option \<times> string option \<times> string option \<times> pyfloat option" where
  "detail_row_step float_of state tds =
     (case state of (school, career, component, hours) \<Rightarrow>
        if length tds < 2 then state
        else
          let label = filter (\<lambda>c. c \<noteq> CHR '':'') (tds ! 0);
              v = tds ! 1
          in if label = ''School'' then (map_of SCHOOL_MAP v, career, component, hours)
             else if label = ''Career'' then (school, map_of CAREER_MAP v, component, hours)
             else if label = ''Component'' then (school, career, map_of COMPONENT_MAP v, hours)
             else if label = ''Hours'' then (school, career, component, float_of v)
             else state)"

definition extract_class_details :: "(string \<Rightarrow> pyfloat option) \<Rightarrow> soup \<Rightarrow> row" where
  "extract_class_details float_of page =
     (case detail_panel page of
        None \<Rightarrow> []
      | Some rows \<Rightarrow>
          (case foldl (detail_row_step float_of) (None, None, None, None) rows of
             (school, career, component, hours) \<Rightarrow>
               dict_display []
                 [(''school_code'', opt_str school),
                  (''career_code'', opt_str career),
                  (''component_code'', opt_str component),
                  (''units_earned'', opt_float hours)]))"

text \<open>\<open>str(n)\<close> for the class number.\<close>

fun str_nat :: "nat \<Rightarrow> string" where
  "str_nat n =
     (if n < 10 then [''0123456789'' ! n]
      else str_nat (n div 10) @ [''0123456789'' ! (n mod 10)])"

declare str_nat.simps [simp del]

text \<open>
  The body of the \<open>try\<close> in \<open>scrape_class_section\<close>. \<open>fetch\<close> is the request for the
  class number and gives the response text or raises; \<open>parse\<close> is the construction of
  the \<open>BeautifulSoup\<close> object together with the searches on it, and gives the page or
  raises.
\<close>

definition scrape_try ::
  "(nat \<Rightarrow> exn + string) \<Rightarrow> (string \<Rightarrow> exn + soup) \<Rightarrow> (string \<Rightarrow> pyfloat option) \<Rightarrow>
   nat \<Rightarrow> exn + row option" where
  "scrape_try fetch parse float_of class_number =
     bind_err (fetch class_number) (\<lambda>response_text.
       if \<not> contains ''classSectionDetailDialog'' response_text then Inr None
       else
         bind_err (parse response_text) (\<lambda>page.
           case h1 page of
             None \<Rightarrow> Inr None
           | Some h1_text \<Rightarrow>
               let header_text = strip h1_text in
               (case parse_class_header header_text of
                  None \<Rightarrow> Inr None
                | Some parsed_header \<Rightarrow>
                    let class_details = extract_class_details float_of page;
                        result = dict_display []
                          ([(''class_number'', JStr (str_nat class_number)),
                            (''display_name'', JStr (display_name parsed_header)),
                            (''long_title'', JStr (long_title parsed_header)),
                            (''subject'', JStr (subject parsed_header)),
                            (''catalog_number'', JStr (catalog_number parsed_header)),
                            (''section_number'', JStr (section_number parsed_header))]
                           @ class_details)
                    in Inr (Some result))))"

text \<open>The two \<open>except\<close> clauses: both return \<open>None\<close>.\<close>

definition scrape_class_section ::
  "(nat \<Rightarrow> exn + string) \<Rightarrow> (string \<Rightarrow> exn + soup) \<Rightarrow> (string \<Rightarrow> pyfloat option) \<Rightarrow>
   nat \<Rightarrow> row option" where
  "scrape_class_section fetch parse float_of class_number =
     (case scrape_try fetch parse float_of class_number of
        Inl RequestException \<Rightarrow> None
      | Inl OtherException \<Rightarrow> None
      | Inr r \<Rightarrow> r)"

text \<open>
  The loop of \<open>main\<close> over the class numbers: a record that is not \<open>None\<close> (and not
  empty) is appended to \<open>results\<close>.
\<close>

fun scan_classes ::
  "(nat \<Rightarrow> exn + string) \<Rightarrow> (string \<Rightarrow> exn + soup) \<Rightarrow> (string \<Rightarrow> pyfloat option) \<Rightarrow>
   nat list \<Rightarrow> row list \<Rightarrow> row list" where
  "scan_classes fetch parse float_of [] results = results"
| "scan_classes fetch parse float_of (class_number # rest) results =
     (case scrape_class_section fetch parse float_of class_number of
        Some class_data \<Rightarrow>
          if class_data \<noteq> []
          then scan_classes fetch parse float_of rest (results @ [class_data])
          else scan_classes fetch parse float_of rest results
      | None \<Rightarrow> scan_classes fetch parse float_of rest results)"

text \<open>The columns of the class-section table (the record of the data model).\<close>

definition class_section_columns :: "string list" where
  "class_section_columns =
     [''class_number'', ''display_name'', ''long_title'', ''subject'', ''catalog_number'',
      ''section_number'', ''school_code'', ''career_code'', ''component_code'', ''units_earned'']"

text \<open>
  A page with the marker and the heading and without a detail panel, and one with a
  panel of four rows.
\<close>

definition page_without_panel :: soup where
  "page_without_panel =
     \<lparr>h1 = Some ''CS-1101-01 : Intro to Computing'', detail_panel = None\<rparr>"

definition page_with_panel :: soup where
  "page_with_panel =
     \<lparr>h1 = Some ''CS-1101-01 : Intro to Computing'',
      detail_panel = Some
        [[''School:'', ''School of Engineering''],
         [''Career:'', ''Undergraduate''],
         [''Component:'', ''Lecture''],
         [''Hours:'', ''3.0'']]\<rparr>"

definition marker_text :: string where
  "marker_text = ''<div id=classSectionDetailDialog><h1>CS-1101-01 : Intro to Computing</h1></div>''"

text \<open>
  The column lists \<open>fieldnames\<close> of the two \<open>save_to_csv\<close> functions of the requirement
  normalizers.
\<close>

definition detail_fieldnames :: "string list" where
  "detail_fieldnames =
     [''group_name'', ''is_main_requirement'', ''requirement_name'', ''description'',
      ''status'', ''units_required'', ''units_used'', ''units_needed'',
      ''term_taken'', ''course_id'', ''units_earned'', ''units_taken'',
      ''long_title'', ''grade'', ''sequence'', ''subject'',
      ''catalog_number'', ''display_name'']"

definition structure_fieldnames :: "string list" where
  "structure_fieldnames =
     [''group_name'', ''is_main_requirement'', ''line_name'', ''description'', ''status'',
      ''requirement_group_number'', ''requirement_number'',
      ''entry_sequence'', ''requirement_entry_sequence'',
      ''units_required'', ''units_used'', ''units_needed'']"

section \<open>Requirement documents as the claims read them\<close>

text \<open>
  The claims speak of a document's requirement lines, of the satisfying courses of a
  line and of the metadata of a row. These definitions say what those words mean on the
  JSON tree; they are not taken from the normalizers' code. A document is well formed
  when it has the shape the normalizers are given: a list of objects, whose
  \<open>requirementGroups\<close>, \<open>requirements\<close> and \<open>requirementLines\<close> are lists of objects
  where present, and whose \<open>coursesUsedToSatisfy\<close> is absent, falsy or a list of
  objects.
\<close>

definition is_dict :: "json \<Rightarrow> bool" where
  "is_dict j = (case j of JDict kv \<Rightarrow> True | _ \<Rightarrow> False)"

definition jfield :: "json \<Rightarrow> string \<Rightarrow> json option" where
  "jfield obj key = (case obj of JDict kv \<Rightarrow> map_of kv key | _ \<Rightarrow> None)"

definition jvalue :: "json \<Rightarrow> string \<Rightarrow> json" where
  "jvalue obj key = (case jfield obj key of Some v \<Rightarrow> v | None \<Rightarrow> JNull)"

definition children :: "json \<Rightarrow> string \<Rightarrow> json list" where
  "children obj key = (case jfield obj key of Some (JList xs) \<Rightarrow> xs | _ \<Rightarrow> [])"

definition list_field_ok :: "(json \<Rightarrow> bool) \<Rightarrow> json \<Rightarrow> string \<Rightarrow> bool" where
  "list_field_ok elem_ok obj key =
     (case jfield obj key of None \<Rightarrow> True | Some (JList xs) \<Rightarrow> list_all elem_ok xs | Some _ \<Rightarrow> False)"

definition wf_line :: "json \<Rightarrow> bool" where
  "wf_line line \<longleftrightarrow> is_dict line \<and>
     (case jfield line ''coursesUsedToSatisfy'' of
        None \<Rightarrow> True
      | Some (JList cs) \<Rightarrow> list_all is_dict cs
      | Some v \<Rightarrow> \<not> truthy v)"

definition wf_requirement :: "json \<Rightarrow> bool" where
  "wf_requirement requirement \<longleftrightarrow>
     is_dict requirement \<and> list_field_ok wf_line requirement ''requirementLines''"

definition wf_group :: "json \<Rightarrow> bool" where
  "wf_group req_group \<longleftrightarrow>
     is_dict req_group \<and> list_field_ok wf_requirement req_group ''requirements''"

definition wf_top :: "json \<Rightarrow> bool" where
  "wf_top requirement_group \<longleftrightarrow> is_dict requirement_group \<and> list_field_ok wf_group requirement_group ''requirementGroups''"

definition wf_document :: "json \<Rightarrow> bool" where
  "wf_document doc = (case doc of JList tops \<Rightarrow> list_all wf_top tops | _ \<Rightarrow> False)"

text \<open>The lines of a document in document order, each with its group and requirement.\<close>

definition group_lines :: "json \<Rightarrow> (json \<times> json \<times> json) list" where
  "group_lines g =
     concat (map (\<lambda>r. map (\<lambda>l. (g, r, l)) (children r ''requirementLines''))
                 (children g ''requirements''))"

definition doc_lines :: "json \<Rightarrow> (json \<times> json \<times> json) list" where
  "doc_lines doc =
     concat (map (\<lambda>requirement_group.
               concat (map group_lines (children requirement_group ''requirementGroups'')))
             (case doc of JList tops \<Rightarrow> tops | _ \<Rightarrow> []))"

definition line_courses :: "json \<Rightarrow> json list" where
  "line_courses line = children line ''coursesUsedToSatisfy''"

text \<open>The group carries a non-empty \<open>plan\<close> field: present, and not falsy.\<close>

definition has_plan :: "json \<Rightarrow> bool" where
  "has_plan req_group = (case jfield req_group ''plan'' of Some v \<Rightarrow> truthy v | None \<Rightarrow> False)"

definition group_name_of :: "json \<Rightarrow> json" where
  "group_name_of g =
     (case jfield g ''name'' of Some v \<Rightarrow> v | None \<Rightarrow> JStr ''Unnamed Requirement Group'')"

definition shared_data_of :: "json \<Rightarrow> json \<Rightarrow> row" where
  "shared_data_of g r =
     [(''group_name'', group_name_of g),
      (''is_main_requirement'', JBool (has_plan g)),
      (''requirement_name'', jvalue r ''name'')]"

text \<open>The eight group, requirement and line columns of a detail row, the ten course columns.\<close>

definition line_metadata :: "json \<Rightarrow> json \<Rightarrow> json \<Rightarrow> row" where
  "line_metadata g r l =
     [(''group_name'', group_name_of g),
      (''is_main_requirement'', JBool (has_plan g)),
      (''requirement_name'', jvalue r ''name''),
      (''description'', jvalue l ''description''),
      (''status'', jvalue l ''status''),
      (''units_required'', jvalue l ''unitsRequired''),
      (''units_used'', jvalue l ''unitsUsed''),
      (''units_needed'', jvalue l ''unitsNeeded'')]"

definition course_fields :: "json \<Rightarrow> row" where
  "course_fields c =
     [(''term_taken'', jvalue c ''termTaken''),
      (''course_id'', jvalue c ''courseId''),
      (''units_earned'', jvalue c ''unitsEarned''),
      (''units_taken'', jvalue c ''unitsTaken''),
      (''long_title'', jvalue c ''longTitle''),
      (''grade'', jvalue c ''grade''),
      (''sequence'', jvalue c ''sequence''),
      (''subject'', jvalue c ''subject''),
      (''catalog_number'', jvalue c ''catalogNumber''),
      (''display_name'', jvalue c ''displayName'')]"

definition null_course_fields :: row where
  "null_course_fields =
     [(''term_taken'', JNull),
      (''course_id'', JNull),
      (''units_earned'', JNull),
      (''units_taken'', JNull),
      (''long_title'', JNull),
      (''grade'', JNull),
      (''sequence'', JNull),
      (''subject'', JNull),
      (''catalog_number'', JNull),
      (''display_name'', JNull)]"

text \<open>The rows a line expands to in detail mode, and the row it yields in structure mode.\<close>

definition detail_rows :: "json \<Rightarrow> json \<Rightarrow> json \<Rightarrow> row list" where
  "detail_rows g r l =
     (if line_courses l = [] then [line_metadata g r l @ null_course_fields]
      else map (\<lambda>c. line_metadata g r l @ course_fields c) (line_courses l))"

definition structure_row :: "json \<Rightarrow> json \<Rightarrow> json \<Rightarrow> row" where
  "structure_row g r l =
     [(''requirement_group_number'', jvalue g ''requirementGroupNumber''),
      (''entry_sequence'', jvalue g ''entrySequence''),
      (''requirement_number'', jvalue r ''requirementNumber''),
      (''requirement_entry_sequence'', jvalue r ''entrySequence''),
      (''group_name'', group_name_of g),
      (''is_main_requirement'', JBool (has_plan g)),
      (''line_name'', jvalue l ''name''),
      (''description'', jvalue l ''description''),
      (''status'', jvalue l ''status''),
      (''units_required'', jvalue l ''unitsRequired''),
      (''units_used'', jvalue l ''unitsUsed''),
      (''units_needed'', jvalue l ''unitsNeeded'')]"

text \<open>
  A document with two groups (the second with an empty plan) and three lines, having
  two, no and a null list of satisfying courses.
\<close>

definition example_document :: json where
  "example_document =
     JList [JDict [(''requirementGroups'', JList
       [JDict
          [(''name'', JStr ''Computer Science Major''),
           (''plan'', JStr ''CSBS''),
           (''requirements'', JList
              [JDict
                 [(''name'', JStr ''Core''),
                  (''requirementLines'', JList
                     [JDict
                        [(''description'', JStr ''Programming''),
                         (''coursesUsedToSatisfy'', JList
                            [JDict [(''courseId'', JStr ''100001'')],
                             JDict [(''courseId'', JStr ''100002'')]])],
                      JDict [(''description'', JStr ''Depth'')]])]])],
        JDict
          [(''name'', JStr ''Liberal Arts Core''),
           (''plan'', JStr []),
           (''requirements'', JList
              [JDict
                 [(''requirementLines'', JList
                     [JDict
                        [(''description'', JStr ''Writing''),
                         (''coursesUsedToSatisfy'', JNull)]])]])]])]]"

section \<open>Properties\<close>

subsection \<open>Strings\<close>


subsection \<open>Lookup tables\<close>







subsection \<open>Term decomposition\<close>

lemma term_tokens_filter:
  "term_tokens term = map snd (filter (\<lambda>(label, tok). contains label term) term_rules)"
  by (simp add: term_tokens_def term_rules_def Let_def)

text \<open>
  C4 (as amended): for every "Typically Offered" string, the result is the short tokens
  FA, SP, SU, ALT joined by ", " in that fixed order, each token present exactly when
  "Fall", "Spring", "Summer", "Alternate Years" respectively occurs in the input, whatever
  the order of the substrings in the input; an input that contains "Fall" and "Summer" and
  neither "Spring" nor "Alternate Years" yields exactly "FA, SU".
\<close>

theorem term_offered_fixed_order:
  "term_offered term =
     join '', '' (map snd (filter (\<lambda>(label, tok). contains label term) term_rules))
   \<and> (contains ''Fall'' term \<and> contains ''Summer'' term
        \<and> \<not> contains ''Spring'' term \<and> \<not> contains ''Alternate Years'' term
      \<longrightarrow> term_offered term = ''FA, SU'')"
proof -
  have "term_offered term =
     join '', '' (map snd (filter (\<lambda>(label, tok). contains label term) term_rules))"
    by (simp add: term_offered_def term_tokens_filter)
  moreover have "term_offered term = ''FA, SU''"
    if "contains ''Fall'' term" "contains ''Summer'' term"
       "\<not> contains ''Spring'' term" "\<not> contains ''Alternate Years'' term"
    using that by (simp add: term_offered_def term_tokens_def Let_def)
  ultimately show ?thesis by blast
qed

theorem term_offered_fixed_order_witness:
  "term_offered ''Summer and Fall'' = ''FA, SU''"
proof -
  have "contains ''Fall'' ''Summer and Fall''" by simp
  moreover have "contains ''Summer'' ''Summer and Fall''" by simp
  moreover have "\<not> contains ''Spring'' ''Summer and Fall''" by simp
  moreover have "\<not> contains ''Alternate Years'' ''Summer and Fall''" by simp
  ultimately show ?thesis
    using term_offered_fixed_order [of "''Summer and Fall''"] by blast
qed

text \<open>
  The claim as stated drops the fourth test: this input contains "Fall" and "Summer" and
  not "Spring", and the result is "FA, SU, ALT".
\<close>

theorem term_offered_counterexample:
  "contains ''Fall'' ''Fall, Summer (Alternate Years)''
   \<and> contains ''Summer'' ''Fall, Summer (Alternate Years)''
   \<and> \<not> contains ''Spring'' ''Fall, Summer (Alternate Years)''
   \<and> term_offered ''Fall, Summer (Alternate Years)'' = ''FA, SU, ALT''
   \<and> term_offered ''Fall, Summer (Alternate Years)'' \<noteq> ''FA, SU''"
  by (simp add: term_offered_def term_tokens_def Let_def)

subsection \<open>Requirement normalizers\<close>

lemma bind_err_Inr [simp]: "bind_err (Inr x) f = f x"
  by (simp add: bind_err_def)

lemma bind_err_Inl [simp]: "bind_err (Inl e) f = Inl e"
  by (simp add: bind_err_def)

lemma for_loop_extend:
  assumes "\<And>x s. x \<in> set xs \<Longrightarrow> body x s = Inr (s @ f x)"
  shows "for_loop xs body s = Inr (s @ concat (map f xs))"
  using assms by (induction xs arbitrary: s) simp_all

lemma py_get_dict [simp]: "py_get (JDict kv) key = Inr (jvalue (JDict kv) key)"
  by (simp add: py_get_def jvalue_def jfield_def split: option.splits)

lemma is_dictE: "is_dict j \<Longrightarrow> (\<And>kv. j = JDict kv \<Longrightarrow> P) \<Longrightarrow> P"
  by (cases j) (simp_all add: is_dict_def)

lemma course_row_dict:
  assumes "is_dict c"
  shows "course_row (line_metadata g r l) c = Inr (line_metadata g r l @ course_fields c)"
proof -
  from assms obtain kv where c: "c = JDict kv" by (rule is_dictE)
  show ?thesis
    unfolding c course_row_def by (simp add: dict_display_def line_metadata_def course_fields_def)
qed

lemma empty_course_row_metadata:
  "empty_course_row (line_metadata g r l) = line_metadata g r l @ null_course_fields"
  by (simp add: empty_course_row_def dict_display_def line_metadata_def null_course_fields_def)

lemma shared_data_metadata:
  "dict_display (dict_display []
       [(''group_name'', gn), (''is_main_requirement'', im), (''requirement_name'', rn)])
     [(''description'', d), (''status'', st), (''units_required'', ur),
      (''units_used'', uu), (''units_needed'', un)]
   = [(''group_name'', gn), (''is_main_requirement'', im), (''requirement_name'', rn),
      (''description'', d), (''status'', st), (''units_required'', ur),
      (''units_used'', uu), (''units_needed'', un)]"
  by (simp add: dict_display_def)

lemma course_loop:
  assumes "list_all is_dict cs"
  shows "for_loop cs
           (\<lambda>course rows. bind_err (course_row (line_metadata g r l) course) (\<lambda>x. Inr (rows @ [x])))
           []
         = Inr (map (\<lambda>c. line_metadata g r l @ course_fields c) cs)"
proof -
  have "for_loop cs
           (\<lambda>course rows. bind_err (course_row (line_metadata g r l) course) (\<lambda>x. Inr (rows @ [x])))
           []
        = Inr ([] @ concat (map (\<lambda>c. [line_metadata g r l @ course_fields c]) cs))"
  proof (rule for_loop_extend)
    fix x s assume "x \<in> set cs"
    with assms have "is_dict x" by (simp add: list_all_iff)
    then show "bind_err (course_row (line_metadata g r l) x) (\<lambda>x. Inr (s @ [x]))
               = Inr (s @ [line_metadata g r l @ course_fields x])"
      by (simp add: course_row_dict)
  qed
  then show ?thesis by (simp add: concat_map_singleton)
qed

lemma process_requirement_line_wf:
  assumes "wf_line l"
  shows "process_requirement_line (shared_data_of g r) l = Inr (detail_rows g r l)"
proof -
  from assms have "is_dict l" by (simp add: wf_line_def)
  then obtain kv where l: "l = JDict kv" by (rule is_dictE)
  have base: "dict_display (shared_data_of g r)
       [(''description'', jvalue l ''description''), (''status'', jvalue l ''status''),
        (''units_required'', jvalue l ''unitsRequired''), (''units_used'', jvalue l ''unitsUsed''),
        (''units_needed'', jvalue l ''unitsNeeded'')] = line_metadata g r l"
    by (simp add: shared_data_of_def dict_display_def line_metadata_def)
  have step: "process_requirement_line (shared_data_of g r) l =
      bind_err (py_get_default l ''coursesUsedToSatisfy'' (JList [])) (\<lambda>courses.
        if truthy courses then
          bind_err (py_iter courses) (\<lambda>items.
            for_loop items
              (\<lambda>course rows. bind_err (course_row (line_metadata g r l) course) (\<lambda>x. Inr (rows @ [x])))
              [])
        else Inr [empty_course_row (line_metadata g r l)])"
    using base unfolding process_requirement_line_def l by (simp add: Let_def)
  show ?thesis
  proof (cases "map_of kv ''coursesUsedToSatisfy''")
    case None
    then show ?thesis
      unfolding step
      by (simp add: l detail_rows_def line_courses_def children_def jfield_def
          empty_course_row_metadata)
  next
    case (Some v)
    show ?thesis
    proof (cases "\<exists>cs. v = JList cs")
      case True
      then obtain cs where v: "v = JList cs" by blast
      with assms Some have cs: "list_all is_dict cs"
        by (simp add: wf_line_def l jfield_def)
      show ?thesis
        unfolding step using Some v course_loop [OF cs, of g r l]
        by (simp add: l detail_rows_def line_courses_def children_def jfield_def
            empty_course_row_metadata)
    next
      case False
      with assms Some have "\<not> truthy v"
        by (cases v) (simp_all add: wf_line_def l jfield_def)
      moreover from False have "children l ''coursesUsedToSatisfy'' = []"
        using Some by (cases v) (simp_all add: l children_def jfield_def)
      ultimately show ?thesis
        unfolding step using Some
        by (simp add: l detail_rows_def line_courses_def empty_course_row_metadata)
    qed
  qed
qed

lemma list_field:
  assumes "is_dict obj" and "list_field_ok P obj key"
  obtains v where "py_get_default obj key (JList []) = Inr v"
    and "py_iter v = Inr (children obj key)"
    and "list_all P (children obj key)"
proof -
  from assms(1) obtain kv where obj: "obj = JDict kv" by (rule is_dictE)
  show ?thesis
  proof (cases "map_of kv key")
    case None
    then have "py_get_default obj key (JList []) = Inr (JList [])"
      and "py_iter (JList []) = Inr (children obj key)"
      and "list_all P (children obj key)"
      by (simp_all add: obj children_def jfield_def)
    then show ?thesis by (rule that)
  next
    case (Some v)
    with assms(2) obtain xs where v: "v = JList xs" and xs: "list_all P xs"
      by (cases v) (simp_all add: list_field_ok_def obj jfield_def)
    from Some v xs have "py_get_default obj key (JList []) = Inr (JList xs)"
      and "py_iter (JList xs) = Inr (children obj key)"
      and "list_all P (children obj key)"
      by (simp_all add: obj children_def jfield_def)
    then show ?thesis by (rule that)
  qed
qed

lemma py_get_default_name:
  "is_dict g \<Longrightarrow>
   py_get_default g ''name'' (JStr ''Unnamed Requirement Group'') = Inr (group_name_of g)"
  by (erule is_dictE) (simp add: group_name_of_def jfield_def)

lemma truthy_plan: "is_dict g \<Longrightarrow> truthy (jvalue g ''plan'') = has_plan g"
  by (erule is_dictE) (simp add: has_plan_def jvalue_def split: option.splits)

lemma py_get_is_dict: "is_dict obj \<Longrightarrow> py_get obj key = Inr (jvalue obj key)"
  by (erule is_dictE) simp

lemma detail_for_requirement_wf:
  assumes "wf_requirement r"
  shows "detail_for_requirement (group_name_of g) (JBool (has_plan g)) r rows
         = Inr (rows @ concat (map (detail_rows g r) (children r ''requirementLines'')))"
proof -
  from assms have d: "is_dict r" and ok: "list_field_ok wf_line r ''requirementLines''"
    by (simp_all add: wf_requirement_def)
  from d ok obtain v where v: "py_get_default r ''requirementLines'' (JList []) = Inr v"
    and it: "py_iter v = Inr (children r ''requirementLines'')"
    and all: "list_all wf_line (children r ''requirementLines'')"
    by (rule list_field)
  have sh: "dict_display []
       [(''group_name'', group_name_of g), (''is_main_requirement'', JBool (has_plan g)),
        (''requirement_name'', jvalue r ''name'')] = shared_data_of g r"
    by (simp add: dict_display_def shared_data_of_def)
  have loop: "for_loop (children r ''requirementLines'')
       (\<lambda>line rows. bind_err (process_requirement_line (shared_data_of g r) line)
          (\<lambda>line_rows. Inr (rows @ line_rows))) rows
     = Inr (rows @ concat (map (detail_rows g r) (children r ''requirementLines'')))"
  proof (rule for_loop_extend)
    fix x s assume "x \<in> set (children r ''requirementLines'')"
    with all have "wf_line x" by (simp add: list_all_iff)
    then show "bind_err (process_requirement_line (shared_data_of g r) x)
          (\<lambda>line_rows. Inr (s @ line_rows)) = Inr (s @ detail_rows g r x)"
      by (simp add: process_requirement_line_wf)
  qed
  show ?thesis
    unfolding detail_for_requirement_def
    by (simp add: v it py_get_is_dict [OF d] sh loop Let_def)
qed

lemma concat_map_triples:
  "concat (map (\<lambda>(g, r, l). F g r l) (map (\<lambda>l. (g, r, l)) ls)) = concat (map (F g r) ls)"
  by (induction ls) simp_all

lemma concat_map_triples_nested:
  "concat (map (\<lambda>(g, r, l). F g r l) (concat (map (\<lambda>r. map (\<lambda>l. (g, r, l)) (K r)) rs)))
   = concat (map (\<lambda>r. concat (map (F g r) (K r))) rs)"
  by (induction rs) (simp_all add: comp_def)

lemma detail_for_req_group_wf:
  assumes "wf_group g"
  shows "detail_for_req_group g rows
         = Inr (rows @ concat (map (\<lambda>(g, r, l). detail_rows g r l) (group_lines g)))"
proof -
  from assms have d: "is_dict g" and ok: "list_field_ok wf_requirement g ''requirements''"
    by (simp_all add: wf_group_def)
  from d ok obtain v where v: "py_get_default g ''requirements'' (JList []) = Inr v"
    and it: "py_iter v = Inr (children g ''requirements'')"
    and all: "list_all wf_requirement (children g ''requirements'')"
    by (rule list_field)
  have loop: "for_loop (children g ''requirements'')
       (detail_for_requirement (group_name_of g) (JBool (has_plan g))) rows
     = Inr (rows @ concat (map (\<lambda>r. concat (map (detail_rows g r) (children r ''requirementLines'')))
                               (children g ''requirements'')))"
  proof (rule for_loop_extend)
    fix x s assume "x \<in> set (children g ''requirements'')"
    with all have "wf_requirement x" by (simp add: list_all_iff)
    then show "detail_for_requirement (group_name_of g) (JBool (has_plan g)) x s
       = Inr (s @ concat (map (detail_rows g x) (children x ''requirementLines'')))"
      by (rule detail_for_requirement_wf)
  qed
  have flat: "concat (map (\<lambda>(g, r, l). detail_rows g r l) (group_lines g))
      = concat (map (\<lambda>r. concat (map (detail_rows g r) (children r ''requirementLines'')))
                               (children g ''requirements''))"
    unfolding group_lines_def by (rule concat_map_triples_nested)
  show ?thesis
    unfolding detail_for_req_group_def
    by (simp add: v it py_get_is_dict [OF d] py_get_default_name [OF d] truthy_plan [OF d]
        loop flat Let_def)
qed

lemma concat_map_concat_map:
  "concat (map f (concat (map h xs))) = concat (map (\<lambda>x. concat (map f (h x))) xs)"
  by (induction xs) simp_all

lemma detail_for_requirement_group_wf:
  assumes "wf_top t"
  shows "detail_for_requirement_group t rows
         = Inr (rows @ concat (map (\<lambda>(g, r, l). detail_rows g r l)
                  (concat (map group_lines (children t ''requirementGroups'')))))"
proof -
  from assms have d: "is_dict t" and ok: "list_field_ok wf_group t ''requirementGroups''"
    by (simp_all add: wf_top_def)
  from d ok obtain v where v: "py_get_default t ''requirementGroups'' (JList []) = Inr v"
    and it: "py_iter v = Inr (children t ''requirementGroups'')"
    and all: "list_all wf_group (children t ''requirementGroups'')"
    by (rule list_field)
  have loop: "for_loop (children t ''requirementGroups'') detail_for_req_group rows
     = Inr (rows @ concat (map (\<lambda>g. concat (map (\<lambda>(g, r, l). detail_rows g r l) (group_lines g)))
                               (children t ''requirementGroups'')))"
  proof (rule for_loop_extend)
    fix x s assume "x \<in> set (children t ''requirementGroups'')"
    with all have "wf_group x" by (simp add: list_all_iff)
    then show "detail_for_req_group x s
       = Inr (s @ concat (map (\<lambda>(g, r, l). detail_rows g r l) (group_lines x)))"
      by (rule detail_for_req_group_wf)
  qed
  show ?thesis
    unfolding detail_for_requirement_group_def
    by (simp add: v it loop concat_map_concat_map)
qed

lemma convert_requirements_to_csv_wf:
  assumes "wf_document doc"
  shows "convert_requirements_to_csv doc
         = Inr (concat (map (\<lambda>(g, r, l). detail_rows g r l) (doc_lines doc)))"
proof -
  from assms obtain tops where doc: "doc = JList tops" and all: "list_all wf_top tops"
    by (cases doc) (simp_all add: wf_document_def)
  have loop: "for_loop tops detail_for_requirement_group []
     = Inr ([] @ concat (map (\<lambda>t. concat (map (\<lambda>(g, r, l). detail_rows g r l)
                  (concat (map group_lines (children t ''requirementGroups''))))) tops))"
  proof (rule for_loop_extend)
    fix x s assume "x \<in> set tops"
    with all have "wf_top x" by (simp add: list_all_iff)
    then show "detail_for_requirement_group x s
       = Inr (s @ concat (map (\<lambda>(g, r, l). detail_rows g r l)
                  (concat (map group_lines (children x ''requirementGroups'')))))"
      by (rule detail_for_requirement_group_wf)
  qed
  show ?thesis
    unfolding convert_requirements_to_csv_def doc
    by (simp add: loop doc_lines_def concat_map_concat_map)
qed

lemma length_detail_rows: "length (detail_rows g r l) = max 1 (length (line_courses l))"
  by (cases "line_courses l") (simp_all add: detail_rows_def)

text \<open>
  C1: for every well-formed requirement document, the detail-mode normalizer returns, for
  each requirement line in document order, one row per satisfying course when the line
  has at least one (each row made of the line's group, requirement and line metadata
  followed by that course's ten fields), and exactly one row whose ten course fields are
  all null when the line has none; so the number of rows is the sum over the lines of
  max(1, number of satisfying courses).
\<close>

theorem detail_rows_per_line:
  assumes "wf_document doc"
  shows "\<exists>rows. convert_requirements_to_csv doc = Inr rows
     \<and> rows = concat (map (\<lambda>(g, r, l).
          if line_courses l = [] then [line_metadata g r l @ null_course_fields]
          else map (\<lambda>c. line_metadata g r l @ course_fields c) (line_courses l)) (doc_lines doc))
     \<and> length rows = sum_list (map (\<lambda>(g, r, l). max 1 (length (line_courses l))) (doc_lines doc))"
proof -
  let ?rows = "concat (map (\<lambda>(g, r, l). detail_rows g r l) (doc_lines doc))"
  have "convert_requirements_to_csv doc = Inr ?rows"
    using assms by (rule convert_requirements_to_csv_wf)
  moreover have "?rows = concat (map (\<lambda>(g, r, l).
          if line_courses l = [] then [line_metadata g r l @ null_course_fields]
          else map (\<lambda>c. line_metadata g r l @ course_fields c) (line_courses l)) (doc_lines doc))"
    by (simp add: detail_rows_def)
  moreover have "length ?rows
      = sum_list (map (\<lambda>(g, r, l). max 1 (length (line_courses l))) (doc_lines doc))"
    by (simp add: length_concat comp_def case_prod_unfold length_detail_rows)
  ultimately show ?thesis by blast
qed

lemma wf_example_document: "wf_document example_document"
  by (simp add: example_document_def wf_document_def wf_top_def wf_group_def wf_requirement_def
      wf_line_def list_field_ok_def is_dict_def jfield_def)

theorem detail_rows_per_line_witness: "\<exists>rows. convert_requirements_to_csv example_document = Inr rows \<and> length rows = 4
   \<and> map (\<lambda>row. map_of row ''course_id'') rows =
       [Some (JStr ''100001''), Some (JStr ''100002''), Some JNull, Some JNull]"
  using detail_rows_per_line [OF wf_example_document]
  by (simp add: example_document_def doc_lines_def group_lines_def children_def jfield_def
      line_courses_def line_metadata_def course_fields_def null_course_fields_def jvalue_def)

lemma structure_for_line_wf:
  assumes "is_dict l"
  shows "structure_for_line (jvalue g ''requirementGroupNumber'') (jvalue g ''entrySequence'')
           (jvalue r ''requirementNumber'') (jvalue r ''entrySequence'')
           (group_name_of g) (JBool (has_plan g)) l rows
         = Inr (rows @ [structure_row g r l])"
  unfolding structure_for_line_def
  by (simp add: py_get_is_dict [OF assms] dict_display_def structure_row_def)

lemma wf_line_is_dict: "wf_line l \<Longrightarrow> is_dict l"
  by (simp add: wf_line_def)

lemma structure_for_requirement_wf:
  assumes "wf_requirement r"
  shows "structure_for_requirement (jvalue g ''requirementGroupNumber'') (jvalue g ''entrySequence'')
           (group_name_of g) (JBool (has_plan g)) r rows
         = Inr (rows @ concat (map (\<lambda>l. [structure_row g r l]) (children r ''requirementLines'')))"
proof -
  from assms have d: "is_dict r" and ok: "list_field_ok wf_line r ''requirementLines''"
    by (simp_all add: wf_requirement_def)
  from d ok obtain v where v: "py_get_default r ''requirementLines'' (JList []) = Inr v"
    and it: "py_iter v = Inr (children r ''requirementLines'')"
    and all: "list_all wf_line (children r ''requirementLines'')"
    by (rule list_field)
  have loop: "for_loop (children r ''requirementLines'')
       (structure_for_line (jvalue g ''requirementGroupNumber'') (jvalue g ''entrySequence'')
           (jvalue r ''requirementNumber'') (jvalue r ''entrySequence'')
           (group_name_of g) (JBool (has_plan g))) rows
     = Inr (rows @ concat (map (\<lambda>l. [structure_row g r l]) (children r ''requirementLines'')))"
  proof (rule for_loop_extend)
    fix x s assume "x \<in> set (children r ''requirementLines'')"
    with all have "is_dict x" by (simp add: list_all_iff wf_line_is_dict)
    then show "structure_for_line (jvalue g ''requirementGroupNumber'') (jvalue g ''entrySequence'')
           (jvalue r ''requirementNumber'') (jvalue r ''entrySequence'')
           (group_name_of g) (JBool (has_plan g)) x s = Inr (s @ [structure_row g r x])"
      by (rule structure_for_line_wf)
  qed
  show ?thesis
    unfolding structure_for_requirement_def
    by (simp add: v it py_get_is_dict [OF d] loop)
qed

lemma structure_for_req_group_wf:
  assumes "wf_group g"
  shows "structure_for_req_group g rows
         = Inr (rows @ concat (map (\<lambda>(g, r, l). [structure_row g r l]) (group_lines g)))"
proof -
  from assms have d: "is_dict g" and ok: "list_field_ok wf_requirement g ''requirements''"
    by (simp_all add: wf_group_def)
  from d ok obtain v where v: "py_get_default g ''requirements'' (JList []) = Inr v"
    and it: "py_iter v = Inr (children g ''requirements'')"
    and all: "list_all wf_requirement (children g ''requirements'')"
    by (rule list_field)
  have loop: "for_loop (children g ''requirements'')
       (structure_for_requirement (jvalue g ''requirementGroupNumber'') (jvalue g ''entrySequence'')
           (group_name_of g) (JBool (has_plan g))) rows
     = Inr (rows @ concat (map (\<lambda>r. concat (map (\<lambda>l. [structure_row g r l])
                                 (children r ''requirementLines'')))
                               (children g ''requirements'')))"
  proof (rule for_loop_extend)
    fix x s assume "x \<in> set (children g ''requirements'')"
    with all have "wf_requirement x" by (simp add: list_all_iff)
    then show "structure_for_requirement (jvalue g ''requirementGroupNumber'')
           (jvalue g ''entrySequence'') (group_name_of g) (JBool (has_plan g)) x s
       = Inr (s @ concat (map (\<lambda>l. [structure_row g x l]) (children x ''requirementLines'')))"
      by (rule structure_for_requirement_wf)
  qed
  have flat: "concat (map (\<lambda>(g, r, l). [structure_row g r l]) (group_lines g))
      = concat (map (\<lambda>r. concat (map (\<lambda>l. [structure_row g r l]) (children r ''requirementLines'')))
                               (children g ''requirements''))"
    unfolding group_lines_def
    by (rule concat_map_triples_nested [where F = "\<lambda>g r l. [structure_row g r l]"])
  show ?thesis
    unfolding structure_for_req_group_def
    by (simp add: v it py_get_is_dict [OF d] py_get_default_name [OF d] truthy_plan [OF d]
        loop flat Let_def)
qed

lemma structure_for_requirement_group_wf:
  assumes "wf_top t"
  shows "structure_for_requirement_group t rows
         = Inr (rows @ concat (map (\<lambda>(g, r, l). [structure_row g r l])
                  (concat (map group_lines (children t ''requirementGroups'')))))"
proof -
  from assms have d: "is_dict t" and ok: "list_field_ok wf_group t ''requirementGroups''"
    by (simp_all add: wf_top_def)
  from d ok obtain v where v: "py_get_default t ''requirementGroups'' (JList []) = Inr v"
    and it: "py_iter v = Inr (children t ''requirementGroups'')"
    and all: "list_all wf_group (children t ''requirementGroups'')"
    by (rule list_field)
  have loop: "for_loop (children t ''requirementGroups'') structure_for_req_group rows
     = Inr (rows @ concat (map (\<lambda>g. concat (map (\<lambda>(g, r, l). [structure_row g r l]) (group_lines g)))
                               (children t ''requirementGroups'')))"
  proof (rule for_loop_extend)
    fix x s assume "x \<in> set (children t ''requirementGroups'')"
    with all have "wf_group x" by (simp add: list_all_iff)
    then show "structure_for_req_group x s
       = Inr (s @ concat (map (\<lambda>(g, r, l). [structure_row g r l]) (group_lines x)))"
      by (rule structure_for_req_group_wf)
  qed
  show ?thesis
    unfolding structure_for_requirement_group_def
    by (simp add: v it loop concat_map_concat_map)
qed

lemma concat_map_single: "concat (map (\<lambda>x. [f x]) xs) = map f xs"
  by (induction xs) simp_all

lemma extract_requirement_structure_wf:
  assumes "wf_document doc"
  shows "extract_requirement_structure doc
         = Inr (map (\<lambda>(g, r, l). structure_row g r l) (doc_lines doc))"
proof -
  from assms obtain tops where doc: "doc = JList tops" and all: "list_all wf_top tops"
    by (cases doc) (simp_all add: wf_document_def)
  have loop: "for_loop tops structure_for_requirement_group []
     = Inr ([] @ concat (map (\<lambda>t. concat (map (\<lambda>(g, r, l). [structure_row g r l])
                  (concat (map group_lines (children t ''requirementGroups''))))) tops))"
  proof (rule for_loop_extend)
    fix x s assume "x \<in> set tops"
    with all have "wf_top x" by (simp add: list_all_iff)
    then show "structure_for_requirement_group x s
       = Inr (s @ concat (map (\<lambda>(g, r, l). [structure_row g r l])
                  (concat (map group_lines (children x ''requirementGroups'')))))"
      by (rule structure_for_requirement_group_wf)
  qed
  have "concat (map (\<lambda>(g, r, l). [structure_row g r l]) (doc_lines doc))
        = map (\<lambda>(g, r, l). structure_row g r l) (doc_lines doc)"
    using concat_map_single [of "\<lambda>(g, r, l). structure_row g r l" "doc_lines doc"]
    by (simp add: case_prod_unfold)
  then show ?thesis
    unfolding extract_requirement_structure_def doc
    by (simp add: loop doc_lines_def concat_map_concat_map)
qed





lemma doc_lines_example:
  "map (\<lambda>(g, r, l). (has_plan g, length (line_courses l))) (doc_lines example_document)
   = [(True, 2), (True, 0), (False, 0)]"
  by (simp add: example_document_def doc_lines_def group_lines_def children_def jfield_def
      has_plan_def line_courses_def)



subsection \<open>Requirement text\<close>





















subsection \<open>Class header\<close>

lemma first_some_None: "(\<And>x. x \<in> set xs \<Longrightarrow> f x = None) \<Longrightarrow> first_some f xs = None"
  by (induction xs) simp_all

lemma first_some_map: "first_some f (map g xs) = first_some (\<lambda>x. f (g x)) xs"
  by (induction xs) (simp_all split: option.splits)

lemma literal_class_None:
  assumes "\<not> p c" and "k < length (takeWhile p s)"
  shows "literal c (drop k s) = None"
proof -
  from assms(2) have k: "k < length s"
    using length_takeWhile_le [of p s] by linarith
  from assms(2) have "p (s ! k)"
    by (metis nth_mem set_takeWhileD takeWhile_nth)
  moreover from k have "drop k s = s ! k # drop (Suc k) s" by (simp add: Cons_nth_drop_Suc)
  ultimately show ?thesis using assms(1) by (auto simp: literal_def)
qed

lemma repeat_class_literal:
  assumes "\<not> p c"
  shows "first_some (\<lambda>(m, r). case literal c r of None \<Rightarrow> None | Some r' \<Rightarrow> F m r')
           (repeat_class p lo hi s)
       = (if lo \<le> length (takeWhile p s) \<and> length (takeWhile p s) \<le> hi
          then (case literal c (dropWhile p s) of None \<Rightarrow> None | Some r' \<Rightarrow> F (takeWhile p s) r')
          else None)"
proof -
  define n where "n = length (takeWhile p s)"
  define h where "h = (\<lambda>k. case literal c (drop k s) of None \<Rightarrow> None | Some r' \<Rightarrow> F (take k s) r')"
  have eq: "first_some (\<lambda>(m, r). case literal c r of None \<Rightarrow> None | Some r' \<Rightarrow> F m r')
           (repeat_class p lo hi s) = first_some h (rev [lo ..< Suc (min hi n)])"
    by (simp add: repeat_class_def first_some_map h_def n_def Let_def)
  have below: "h k = None" if "k < n" for k
    using literal_class_None [of p c k s] assms that by (simp add: h_def n_def)
  show ?thesis
  proof (cases "lo \<le> n \<and> n \<le> hi")
    case True
    then have "rev [lo ..< Suc (min hi n)] = n # rev [lo ..< n]" by (simp add: min_absorb2)
    moreover have "first_some h (rev [lo ..< n]) = None"
      by (rule first_some_None) (simp add: below)
    moreover have "h n = (case literal c (dropWhile p s) of None \<Rightarrow> None
                          | Some r' \<Rightarrow> F (takeWhile p s) r')"
      by (simp add: h_def n_def takeWhile_eq_take [symmetric] dropWhile_eq_drop [symmetric]
          cong: option.case_cong)
    ultimately show ?thesis
      using True unfolding eq by (simp add: n_def split: option.splits)
  next
    case False
    have r: "first_some h (rev [lo ..< Suc (min hi n)]) = None"
    proof (rule first_some_None)
      fix k assume "k \<in> set (rev [lo ..< Suc (min hi n)])"
      with False have "k < n" by auto
      then show "h k = None" by (rule below)
    qed
    from False have c: "(lo \<le> length (takeWhile p s) \<and> length (takeWhile p s) \<le> hi) = False"
      by (simp add: n_def)
    show ?thesis unfolding eq r c by simp
  qed
qed

lemma not_upper_hyphen: "\<not> is_upper CHR ''-''"
  by (simp add: is_upper_def)

lemma not_upper_or_digit_hyphen: "\<not> is_upper_or_digit CHR ''-''"
  by (simp add: is_upper_or_digit_def is_upper_def is_digit_def)

lemma match_header_closed:
  "match_header s =
     (if 2 \<le> length (takeWhile is_upper s) \<and> length (takeWhile is_upper s) \<le> 6
      then (case literal CHR ''-'' (dropWhile is_upper s) of
              None \<Rightarrow> None
            | Some r2 \<Rightarrow>
               (if 4 \<le> length (takeWhile is_upper_or_digit r2)
                    \<and> length (takeWhile is_upper_or_digit r2) \<le> 6
                then (case literal CHR ''-'' (dropWhile is_upper_or_digit r2) of
                        None \<Rightarrow> None
                      | Some r4 \<Rightarrow>
                          (case two_digits r4 of
                             None \<Rightarrow> None
                           | Some sec \<Rightarrow>
                               Some (takeWhile is_upper s, takeWhile is_upper_or_digit r2, sec)))
                else None))
      else None)"
  unfolding match_header_def
  by (simp add:
      repeat_class_literal [where p = is_upper and c = "CHR ''-''", OF not_upper_hyphen]
      repeat_class_literal [where p = is_upper_or_digit and c = "CHR ''-''",
        OF not_upper_or_digit_hyphen] cong: option.case_cong)

lemma literal_Some: "literal c s = Some r \<longleftrightarrow> s = c # r"
  by (auto simp: literal_def split: list.splits)

lemma two_digits_Some:
  "two_digits r = Some sec \<longleftrightarrow> (\<exists>rest. r = sec @ rest \<and> length sec = 2 \<and> list_all is_digit sec)"
proof
  assume "two_digits r = Some sec"
  then show "\<exists>rest. r = sec @ rest \<and> length sec = 2 \<and> list_all is_digit sec"
    by (auto simp: two_digits_def split: list.splits if_splits)
next
  assume "\<exists>rest. r = sec @ rest \<and> length sec = 2 \<and> list_all is_digit sec"
  then obtain rest where r: "r = sec @ rest" and l: "length sec = 2" and d: "list_all is_digit sec"
    by blast
  from l obtain d1 d2 where sec: "sec = [d1, d2]"
    by (auto simp: numeral_2_eq_2 length_Suc_conv)
  with r d show "two_digits r = Some sec" by (simp add: two_digits_def)
qed

lemma takeWhile_stop:
  assumes "list_all p a" and "\<not> p y"
  shows "takeWhile p (a @ y # r) = a" and "dropWhile p (a @ y # r) = y # r"
  using assms by (induction a) simp_all

lemma list_all_takeWhile: "list_all p (takeWhile p s)"
  by (induction s) simp_all

lemma match_header_iff:
  "match_header s = Some (a, b, c)
   \<longleftrightarrow> shape_parts a b c \<and> (\<exists>rest. s = a @ ''-'' @ b @ ''-'' @ c @ rest)"
proof
  assume m: "match_header s = Some (a, b, c)"
  from m have la: "2 \<le> length (takeWhile is_upper s)" "length (takeWhile is_upper s) \<le> 6"
    unfolding match_header_closed by (simp_all split: if_splits)
  with m obtain r2 where r2: "literal CHR ''-'' (dropWhile is_upper s) = Some r2"
    unfolding match_header_closed by (auto split: option.splits)
  from m la r2 have lb: "4 \<le> length (takeWhile is_upper_or_digit r2)"
      "length (takeWhile is_upper_or_digit r2) \<le> 6"
    unfolding match_header_closed by (simp_all split: if_splits)
  with m la r2 obtain r4 where r4: "literal CHR ''-'' (dropWhile is_upper_or_digit r2) = Some r4"
    unfolding match_header_closed by (auto split: option.splits)
  from m la r2 lb r4 have sec: "two_digits r4 = Some c"
    and a: "a = takeWhile is_upper s" and b: "b = takeWhile is_upper_or_digit r2"
    unfolding match_header_closed by (auto split: option.splits)
  from sec obtain rest where rest: "r4 = c @ rest" and lc: "length c = 2"
    and dc: "list_all is_digit c"
    unfolding two_digits_Some by blast
  from r2 have "dropWhile is_upper s = CHR ''-'' # r2" by (simp add: literal_Some)
  then have s: "s = a @ CHR ''-'' # r2"
    unfolding a by (metis takeWhile_dropWhile_id)
  from r4 have "dropWhile is_upper_or_digit r2 = CHR ''-'' # r4" by (simp add: literal_Some)
  then have r2eq: "r2 = b @ CHR ''-'' # r4"
    unfolding b by (metis takeWhile_dropWhile_id)
  have "shape_parts a b c"
    unfolding shape_parts_def using la lb lc dc
    by (simp add: a b list_all_takeWhile)
  moreover have "s = a @ ''-'' @ b @ ''-'' @ c @ rest"
    using s r2eq rest by simp
  ultimately show "shape_parts a b c \<and> (\<exists>rest. s = a @ ''-'' @ b @ ''-'' @ c @ rest)"
    by blast
next
  assume "shape_parts a b c \<and> (\<exists>rest. s = a @ ''-'' @ b @ ''-'' @ c @ rest)"
  then obtain rest where sh: "shape_parts a b c"
    and s: "s = a @ CHR ''-'' # (b @ CHR ''-'' # (c @ rest))"
    by auto
  from sh have ua: "list_all is_upper a" and ub: "list_all is_upper_or_digit b"
    and la: "2 \<le> length a" "length a \<le> 6" and lb: "4 \<le> length b" "length b \<le> 6"
    and lc: "length c = 2" and dc: "list_all is_digit c"
    by (simp_all add: shape_parts_def)
  have ta: "takeWhile is_upper s = a"
    and da: "dropWhile is_upper s = CHR ''-'' # (b @ CHR ''-'' # (c @ rest))"
    unfolding s using ua not_upper_hyphen by (rule takeWhile_stop)+
  have tb: "takeWhile is_upper_or_digit (b @ CHR ''-'' # (c @ rest)) = b"
    and db: "dropWhile is_upper_or_digit (b @ CHR ''-'' # (c @ rest)) = CHR ''-'' # (c @ rest)"
    using ub not_upper_or_digit_hyphen by (rule takeWhile_stop)+
  have td: "two_digits (c @ rest) = Some c"
    unfolding two_digits_Some using lc dc by blast
  show "match_header s = Some (a, b, c)"
    unfolding match_header_closed
    by (simp add: ta da tb db td la lb literal_def)
qed

lemma not_space_colon: "\<not> is_space CHR '':''"
  by (simp add: is_space_def whitespace_def)

lemma match_colon_colon: "match_colon (CHR '':'' # cs) \<noteq> None"
  by (simp add: match_colon_def not_space_colon)

lemma match_colon_Some:
  assumes "match_colon s = Some rest"
  shows "\<exists>ws r. s = ws @ CHR '':'' # r \<and> list_all is_space ws \<and> rest = dropWhile is_space r"
proof -
  from assms obtain r where d: "dropWhile is_space s = CHR '':'' # r"
    and rest: "rest = dropWhile is_space r"
    by (auto simp: match_colon_def split: list.splits if_splits)
  have "s = takeWhile is_space s @ CHR '':'' # r"
    using d by (metis takeWhile_dropWhile_id)
  with rest list_all_takeWhile [of is_space s] show ?thesis by blast
qed

lemma spaces_no_colon: "list_all is_space ws \<Longrightarrow> list_all (\<lambda>c. c \<noteq> CHR '':'') ws"
  using not_space_colon by (induction ws) auto

lemma search_colon_Some:
  assumes "search_colon s = Some (b, a)"
  shows "\<exists>ws. list_all is_space ws \<and> takeWhile (\<lambda>c. c \<noteq> CHR '':'') s = b @ ws
           \<and> a = dropWhile is_space (tl (dropWhile (\<lambda>c. c \<noteq> CHR '':'') s))"
  using assms
proof (induction s arbitrary: b)
  case Nil
  then show ?case by simp
next
  case (Cons c cs)
  show ?case
  proof (cases "match_colon (c # cs)")
    case (Some rest)
    with Cons.prems have b: "b = []" and a: "a = rest" by simp_all
    from match_colon_Some [OF Some] obtain ws r where
      eq: "c # cs = ws @ CHR '':'' # r" and ws: "list_all is_space ws"
      and rest: "rest = dropWhile is_space r" by blast
    have nc: "list_all (\<lambda>c. c \<noteq> CHR '':'') ws" using ws by (rule spaces_no_colon)
    have "takeWhile (\<lambda>c. c \<noteq> CHR '':'') (c # cs) = ws"
      and "dropWhile (\<lambda>c. c \<noteq> CHR '':'') (c # cs) = CHR '':'' # r"
      unfolding eq using nc by (rule takeWhile_stop, simp)+
    with ws a b rest show ?thesis by simp
  next
    case None
    with Cons.prems obtain b' where sp: "search_colon cs = Some (b', a)" and b: "b = c # b'"
      by auto
    from None have c: "c \<noteq> CHR '':''" using match_colon_colon [of cs] by auto
    from Cons.IH [OF sp] obtain ws where "list_all is_space ws"
      and "takeWhile (\<lambda>c. c \<noteq> CHR '':'') cs = b' @ ws"
      and "a = dropWhile is_space (tl (dropWhile (\<lambda>c. c \<noteq> CHR '':'') cs))" by blast
    with b c show ?thesis by simp
  qed
qed

lemma search_colon_None: "search_colon s = None \<longleftrightarrow> CHR '':'' \<notin> set s"
proof (induction s)
  case Nil
  then show ?case by simp
next
  case (Cons c cs)
  show ?case
  proof (cases "match_colon (c # cs)")
    case (Some rest)
    from match_colon_Some [OF Some] obtain ws r where eq: "c # cs = ws @ CHR '':'' # r"
      by blast
    have "CHR '':'' \<in> set (ws @ CHR '':'' # r)" by simp
    then have "CHR '':'' \<in> set (c # cs)" unfolding eq .
    moreover have "search_colon (c # cs) \<noteq> None" using Some by simp
    ultimately show ?thesis by blast
  next
    case None
    then have "c \<noteq> CHR '':''" using match_colon_colon [of cs] by auto
    with None Cons.IH show ?thesis by simp
  qed
qed

lemma strip_append_spaces:
  assumes "list_all is_space ws"
  shows "strip (b @ ws) = strip b"
proof (cases "list_all is_space b")
  case True
  with assms have e: "dropWhile is_space (b @ ws) = []" "dropWhile is_space b = []"
    by (auto simp: dropWhile_eq_Nil_conv list_all_iff)
  show ?thesis unfolding strip_def e by (rule refl)
next
  case False
  then obtain x where "x \<in> set b" "\<not> is_space x" by (auto simp: list_all_iff)
  then have "dropWhile is_space (b @ ws) = dropWhile is_space b @ ws"
    by (simp add: dropWhile_append1)
  moreover have "dropWhile is_space (rev ws @ ys) = dropWhile is_space ys" for ys
  proof (rule dropWhile_append2)
    fix x assume "x \<in> set (rev ws)"
    with assms show "is_space x" by (simp add: list_all_iff)
  qed
  ultimately show ?thesis by (simp add: strip_def)
qed

lemma strip_dropWhile: "strip (dropWhile is_space s) = strip s"
  by (simp add: strip_def dropWhile_idem)

lemma left_part_before_colon:
  "left_part_of header_text = strip (takeWhile (\<lambda>c. c \<noteq> CHR '':'') header_text)"
proof (cases "search_colon header_text")
  case None
  then have "CHR '':'' \<notin> set header_text" by (simp add: search_colon_None)
  then have tw: "takeWhile (\<lambda>c. c \<noteq> CHR '':'') header_text = header_text"
    by (auto simp: takeWhile_eq_all_conv)
  show ?thesis unfolding left_part_of_def re_split_colon_def None tw by simp
next
  case (Some ba)
  then obtain b a where sp: "search_colon header_text = Some (b, a)" by (cases ba) simp
  from search_colon_Some [OF sp] obtain ws where "list_all is_space ws"
    and "takeWhile (\<lambda>c. c \<noteq> CHR '':'') header_text = b @ ws" by blast
  with sp show ?thesis
    by (simp add: left_part_of_def re_split_colon_def strip_append_spaces)
qed

lemma long_title_after_colon:
  "long_title_of header_text =
     (if CHR '':'' \<in> set header_text
      then strip (tl (dropWhile (\<lambda>c. c \<noteq> CHR '':'') header_text))
      else [])"
proof (cases "search_colon header_text")
  case None
  then have "CHR '':'' \<notin> set header_text" by (simp add: search_colon_None)
  then show ?thesis
    by (simp add: long_title_of_def re_split_colon_def None)
next
  case (Some ba)
  then obtain b a where sp: "search_colon header_text = Some (b, a)" by (cases ba) simp
  then have "CHR '':'' \<in> set header_text"
    using search_colon_None [of header_text] by auto
  moreover from search_colon_Some [OF sp]
  have "a = dropWhile is_space (tl (dropWhile (\<lambda>c. c \<noteq> CHR '':'') header_text))" by blast
  ultimately show ?thesis using sp
    by (simp add: long_title_of_def re_split_colon_def strip_dropWhile)
qed

lemma starts_with_shape_iff:
  "starts_with_shape s \<longleftrightarrow> (\<exists>a b c. match_header s = Some (a, b, c))"
proof
  assume "starts_with_shape s"
  then obtain p rest a b c where "s = p @ rest" "p = a @ ''-'' @ b @ ''-'' @ c" "shape_parts a b c"
    unfolding starts_with_shape_def has_strict_shape_def by blast
  then have "shape_parts a b c \<and> (\<exists>rest. s = a @ ''-'' @ b @ ''-'' @ c @ rest)" by simp
  then show "\<exists>a b c. match_header s = Some (a, b, c)" unfolding match_header_iff [symmetric] by blast
next
  assume "\<exists>a b c. match_header s = Some (a, b, c)"
  then obtain a b c where "match_header s = Some (a, b, c)" by blast
  then obtain rest where sh: "shape_parts a b c" and s: "s = a @ ''-'' @ b @ ''-'' @ c @ rest"
    unfolding match_header_iff by blast
  from sh have "has_strict_shape (a @ ''-'' @ b @ ''-'' @ c)"
    unfolding has_strict_shape_def by blast
  moreover from s have "s = (a @ ''-'' @ b @ ''-'' @ c) @ rest" by simp
  ultimately show "starts_with_shape s" unfolding starts_with_shape_def by blast
qed

lemma has_strict_shape_match:
  assumes "has_strict_shape s"
  shows "\<exists>a b c. match_header s = Some (a, b, c) \<and> s = a @ ''-'' @ b @ ''-'' @ c"
proof -
  from assms obtain a b c where s: "s = a @ ''-'' @ b @ ''-'' @ c" and sh: "shape_parts a b c"
    unfolding has_strict_shape_def by blast
  then have "shape_parts a b c \<and> (\<exists>rest. s = a @ ''-'' @ b @ ''-'' @ c @ rest)" by simp
  then have "match_header s = Some (a, b, c)" unfolding match_header_iff .
  with s show ?thesis by blast
qed

lemmas parse_eval = parse_class_header_def left_part_of_def long_title_of_def re_split_colon_def
  match_colon_def match_header_def repeat_class_def literal_def two_digits_def strip_def
  is_space_def whitespace_def is_upper_def is_digit_def is_upper_or_digit_def Let_def upt_rec

text \<open>
  C2 (as amended): the header parser maps "CS-1101-01 : Intro to Computing" to subject
  "CS", catalog number "1101", section number "01", display name "CS-1101" and long title
  "Intro to Computing", and returns no result for "Intro Seminar". For every header text
  it returns no result exactly when the stripped part before the first colon does not
  start with the strict SUBJ-CAT-SEC shape; when it returns a result, the three parts
  have the strict shape and are a prefix of that part, and whatever follows the two
  section digits is ignored.
\<close>

theorem parse_class_header_shape_prefix:
  "parse_class_header ''CS-1101-01 : Intro to Computing''
     = Some \<lparr>subject = ''CS'', catalog_number = ''1101'', section_number = ''01'',
             display_name = ''CS-1101'', long_title = ''Intro to Computing''\<rparr>
   \<and> parse_class_header ''Intro Seminar'' = None
   \<and> left_part_of header_text = strip (takeWhile (\<lambda>c. c \<noteq> CHR '':'') header_text)
   \<and> (parse_class_header header_text = None \<longleftrightarrow> \<not> starts_with_shape (left_part_of header_text))
   \<and> (\<forall>r. parse_class_header header_text = Some r \<longrightarrow>
          shape_parts (subject r) (catalog_number r) (section_number r)
        \<and> prefix (subject r @ ''-'' @ catalog_number r @ ''-'' @ section_number r)
            (left_part_of header_text)
        \<and> display_name r = subject r @ ''-'' @ catalog_number r
        \<and> long_title r = long_title_of header_text)"
proof -
  have e1: "parse_class_header ''CS-1101-01 : Intro to Computing''
     = Some \<lparr>subject = ''CS'', catalog_number = ''1101'', section_number = ''01'',
             display_name = ''CS-1101'', long_title = ''Intro to Computing''\<rparr>"
    by (simp add: parse_eval)
  have e2: "parse_class_header ''Intro Seminar'' = None"
    by (simp add: parse_eval)
  have none: "parse_class_header header_text = None
      \<longleftrightarrow> \<not> starts_with_shape (left_part_of header_text)"
    unfolding starts_with_shape_iff
    by (auto simp: parse_class_header_def Let_def split: option.splits)
  have some: "shape_parts (subject r) (catalog_number r) (section_number r)
        \<and> prefix (subject r @ ''-'' @ catalog_number r @ ''-'' @ section_number r)
            (left_part_of header_text)
        \<and> display_name r = subject r @ ''-'' @ catalog_number r
        \<and> long_title r = long_title_of header_text"
    if "parse_class_header header_text = Some r" for r
  proof -
    from that obtain a b c where m: "match_header (left_part_of header_text) = Some (a, b, c)"
      and r: "r = \<lparr>subject = a, catalog_number = b, section_number = c,
                   display_name = a @ ''-'' @ b, long_title = long_title_of header_text\<rparr>"
      by (auto simp: parse_class_header_def Let_def split: option.splits)
    from m obtain rest where sh: "shape_parts a b c"
      and s: "left_part_of header_text = a @ ''-'' @ b @ ''-'' @ c @ rest"
      unfolding match_header_iff by blast
    from s have "left_part_of header_text = (a @ ''-'' @ b @ ''-'' @ c) @ rest" by simp
    then have "prefix (a @ ''-'' @ b @ ''-'' @ c) (left_part_of header_text)"
      unfolding prefix_def by blast
    with sh show ?thesis by (simp add: r)
  qed
  from e1 e2 left_part_before_colon [of header_text] none some show ?thesis by blast
qed

theorem parse_class_header_shape_prefix_witness:
  "parse_class_header ''MATH-2300-02: Multivariable Calculus''
     = Some \<lparr>subject = ''MATH'', catalog_number = ''2300'', section_number = ''02'',
             display_name = ''MATH-2300'', long_title = ''Multivariable Calculus''\<rparr>
   \<and> starts_with_shape (left_part_of ''MATH-2300-02: Multivariable Calculus'')
   \<and> shape_parts ''MATH'' ''2300'' ''02''
   \<and> parse_class_header ''2300-MATH-02: Multivariable Calculus'' = None
   \<and> \<not> starts_with_shape (left_part_of ''2300-MATH-02: Multivariable Calculus'')"
proof -
  have e1: "parse_class_header ''MATH-2300-02: Multivariable Calculus''
     = Some \<lparr>subject = ''MATH'', catalog_number = ''2300'', section_number = ''02'',
             display_name = ''MATH-2300'', long_title = ''Multivariable Calculus''\<rparr>"
    by (simp add: parse_eval)
  have e2: "parse_class_header ''2300-MATH-02: Multivariable Calculus'' = None"
    by (simp add: parse_eval)
  from e1 parse_class_header_shape_prefix [of "''MATH-2300-02: Multivariable Calculus''"]
  have "starts_with_shape (left_part_of ''MATH-2300-02: Multivariable Calculus'')"
    and "shape_parts ''MATH'' ''2300'' ''02''"
    by auto
  moreover from e2 parse_class_header_shape_prefix [of "''2300-MATH-02: Multivariable Calculus''"]
  have "\<not> starts_with_shape (left_part_of ''2300-MATH-02: Multivariable Calculus'')"
    by blast
  ultimately show ?thesis using e1 e2 by (intro conjI)
qed

text \<open>
  The claim as stated asks for no parse whenever the part before the first colon
  deviates from the shape. Here that part is "CS-1101-012", whose section has three
  digits, and the header is parsed with section "01".
\<close>

theorem parse_class_header_counterexample:
  "left_part_of ''CS-1101-012 : Intro to Computing'' = ''CS-1101-012''
   \<and> \<not> has_strict_shape ''CS-1101-012''
   \<and> parse_class_header ''CS-1101-012 : Intro to Computing''
       = Some \<lparr>subject = ''CS'', catalog_number = ''1101'', section_number = ''01'',
               display_name = ''CS-1101'', long_title = ''Intro to Computing''\<rparr>"
proof -
  have l: "left_part_of ''CS-1101-012 : Intro to Computing'' = ''CS-1101-012''"
    by (simp add: parse_eval)
  have p: "parse_class_header ''CS-1101-012 : Intro to Computing''
       = Some \<lparr>subject = ''CS'', catalog_number = ''1101'', section_number = ''01'',
               display_name = ''CS-1101'', long_title = ''Intro to Computing''\<rparr>"
    by (simp add: parse_eval)
  have m: "match_header ''CS-1101-012'' = Some (''CS'', ''1101'', ''01'')"
    by (simp add: parse_eval)
  have n: "\<not> has_strict_shape ''CS-1101-012''"
  proof
    assume "has_strict_shape ''CS-1101-012''"
    then obtain a b c where ma: "match_header ''CS-1101-012'' = Some (a, b, c)"
      and eq: "''CS-1101-012'' = a @ ''-'' @ b @ ''-'' @ c"
      using has_strict_shape_match by blast
    from ma [symmetric] m have "Some (a, b, c) = Some (''CS'', ''1101'', ''01'')"
      by (rule trans)
    then have abc: "a = ''CS'' \<and> b = ''1101'' \<and> c = ''01''"
      by (simp only: option.inject prod.inject)
    have "a @ ''-'' @ b @ ''-'' @ c = ''CS-1101-01''"
      unfolding abc [THEN conjunct1] abc [THEN conjunct2, THEN conjunct1]
        abc [THEN conjunct2, THEN conjunct2] by simp
    with eq have "''CS-1101-012'' = ''CS-1101-01''" by (rule trans)
    then show False by simp
  qed
  from l n p show ?thesis by (intro conjI)
qed

subsection \<open>Search-result candidates\<close>

lemma not_digit_hyphen: "\<not> is_digit CHR ''-''"
  by (simp add: is_digit_def)

lemma code_suffix_no_newline:
  assumes "CHR 0x0A \<notin> set s"
  shows "code_suffix s \<longleftrightarrow> trailing_number s"
proof
  assume cs: "code_suffix s"
  then obtain r where s: "s = CHR ''-'' # r" and ne: "takeWhile is_digit r \<noteq> []"
    and d: "dropWhile is_digit r = [] \<or> dropWhile is_digit r = [CHR 0x0A]"
    by (auto simp: code_suffix_def split: list.splits)
  have "dropWhile is_digit r \<noteq> [CHR 0x0A]"
  proof
    assume "dropWhile is_digit r = [CHR 0x0A]"
    then have "CHR 0x0A \<in> set (dropWhile is_digit r)" by simp
    then have "CHR 0x0A \<in> set r" by (rule set_dropWhileD)
    with assms s show False by simp
  qed
  with d have e: "dropWhile is_digit r = []" by blast
  then have "list_all is_digit r" by (simp add: dropWhile_eq_Nil_conv list_all_iff)
  moreover from ne have "r \<noteq> []" by auto
  ultimately show "trailing_number s" unfolding trailing_number_def using s by blast
next
  assume "trailing_number s"
  then obtain ds where s: "s = CHR ''-'' # ds" and ne: "ds \<noteq> []" and d: "list_all is_digit ds"
    unfolding trailing_number_def by blast
  have a: "takeWhile is_digit ds \<noteq> []" using ne d by (cases ds) simp_all
  have b: "dropWhile is_digit ds = []" using d by (simp add: list_all_iff)
  show "code_suffix s" unfolding s code_suffix_def using a b by simp
qed

lemma trailing_number_only_digits:
  assumes "trailing_number (c # cs)"
  shows "CHR ''-'' \<notin> set cs"
proof -
  from assms have "list_all is_digit cs" unfolding trailing_number_def by auto
  with not_digit_hyphen show ?thesis by (auto simp: list_all_iff)
qed

lemma lazy_code_no_newline:
  assumes "CHR 0x0A \<notin> set n"
  shows "lazy_code n = Some p \<longleftrightarrow> (\<exists>ds. n = p @ CHR ''-'' # ds \<and> ds \<noteq> [] \<and> list_all is_digit ds)"
  using assms
proof (induction n arbitrary: p)
  case Nil
  then show ?case by simp
next
  case (Cons c cs)
  from Cons.prems have nl: "c \<noteq> CHR 0x0A" and nls: "CHR 0x0A \<notin> set cs" by auto
  have suffix: "code_suffix (c # cs) \<longleftrightarrow> trailing_number (c # cs)"
    using Cons.prems by (rule code_suffix_no_newline)
  show ?case
  proof (cases "trailing_number (c # cs)")
    case True
    have "(\<exists>ds. c # cs = p @ CHR ''-'' # ds \<and> ds \<noteq> [] \<and> list_all is_digit ds) \<longleftrightarrow> p = []"
    proof
      assume "\<exists>ds. c # cs = p @ CHR ''-'' # ds \<and> ds \<noteq> [] \<and> list_all is_digit ds"
      then obtain ds where eq: "c # cs = p @ CHR ''-'' # ds" by blast
      show "p = []"
      proof (cases p)
        case Nil
        then show ?thesis .
      next
        case (Cons x p')
        with eq have "cs = p' @ CHR ''-'' # ds" by simp
        then have "CHR ''-'' \<in> set cs" by simp
        with trailing_number_only_digits [OF True] show ?thesis by contradiction
      qed
    next
      assume "p = []"
      with True show "\<exists>ds. c # cs = p @ CHR ''-'' # ds \<and> ds \<noteq> [] \<and> list_all is_digit ds"
        unfolding trailing_number_def by auto
    qed
    moreover from True suffix have "lazy_code (c # cs) = Some []" by simp
    ultimately show ?thesis by auto
  next
    case False
    with suffix nl have step: "lazy_code (c # cs) = map_option ((#) c) (lazy_code cs)" by simp
    have "(\<exists>ds. c # cs = p @ CHR ''-'' # ds \<and> ds \<noteq> [] \<and> list_all is_digit ds)
          \<longleftrightarrow> (\<exists>p'. p = c # p' \<and> (\<exists>ds. cs = p' @ CHR ''-'' # ds \<and> ds \<noteq> [] \<and> list_all is_digit ds))"
    proof
      assume "\<exists>ds. c # cs = p @ CHR ''-'' # ds \<and> ds \<noteq> [] \<and> list_all is_digit ds"
      then obtain ds where eq: "c # cs = p @ CHR ''-'' # ds" and ne: "ds \<noteq> []"
        and d: "list_all is_digit ds" by blast
      show "\<exists>p'. p = c # p' \<and> (\<exists>ds. cs = p' @ CHR ''-'' # ds \<and> ds \<noteq> [] \<and> list_all is_digit ds)"
      proof (cases p)
        case Nil
        with eq ne d have "trailing_number (c # cs)" unfolding trailing_number_def by auto
        with False show ?thesis by contradiction
      next
        case (Cons x p')
        with eq have "x = c" "cs = p' @ CHR ''-'' # ds" by simp_all
        with Cons ne d show ?thesis by blast
      qed
    next
      assume "\<exists>p'. p = c # p' \<and> (\<exists>ds. cs = p' @ CHR ''-'' # ds \<and> ds \<noteq> [] \<and> list_all is_digit ds)"
      then show "\<exists>ds. c # cs = p @ CHR ''-'' # ds \<and> ds \<noteq> [] \<and> list_all is_digit ds" by auto
    qed
    moreover have "lazy_code (c # cs) = Some p
          \<longleftrightarrow> (\<exists>p'. p = c # p' \<and> lazy_code cs = Some p')"
      unfolding step by auto
    ultimately show ?thesis using Cons.IH [OF nls] by simp
  qed
qed

lemma findall_results:
  "g \<in> set (findall m s) \<Longrightarrow> \<exists>s' rest. m s' = Some (g, rest)"
proof (induction "length s" arbitrary: s rule: less_induct)
  case less
  note mem = less.prems
  show ?case
  proof (cases "m s")
    case None
    from mem have "g \<in> set (case s of [] \<Rightarrow> [] | c # cs \<Rightarrow> findall m cs)"
      by (subst (asm) findall.simps) (simp add: None)
    then obtain c cs where s: "s = c # cs" and g: "g \<in> set (findall m cs)"
      by (cases s) simp_all
    from s have "length cs < length s" by simp
    then show ?thesis using g by (rule less.hyps)
  next
    case (Some gr)
    obtain g' rest where gr: "gr = (g', rest)" by (cases gr)
    show ?thesis
    proof (cases "length rest < length s")
      case True
      from mem have "g \<in> set (g' # findall m rest)"
        by (subst (asm) findall.simps) (simp add: Some gr True)
      then consider "g = g'" | "g \<in> set (findall m rest)" by auto
      then show ?thesis
      proof cases
        case 1
        with Some gr show ?thesis by blast
      next
        case 2
        with True show ?thesis by (rule less.hyps)
      qed
    next
      case False
      from mem have "g \<in> set (case s of [] \<Rightarrow> [g'] | c # cs \<Rightarrow> g' # findall m cs)"
        by (subst (asm) findall.simps) (simp add: Some gr False)
      then consider "g = g'" | "\<exists>c cs. s = c # cs \<and> g \<in> set (findall m cs)"
        by (cases s) auto
      then show ?thesis
      proof cases
        case 1
        with Some gr show ?thesis by blast
      next
        case 2
        then obtain c cs where s: "s = c # cs" and g: "g \<in> set (findall m cs)" by blast
        from s have "length cs < length s" by simp
        then show ?thesis using g by (rule less.hyps)
      qed
    qed
  qed
qed

lemma match_notification_no_newline:
  "match_notification s = Some (g, r) \<Longrightarrow> CHR 0x0A \<notin> set g"
  by (auto simp: match_notification_def split: option.splits if_splits)

lemma notifications_no_newline:
  assumes "n \<in> set (findall match_notification html)"
  shows "CHR 0x0A \<notin> set n"
proof -
  from findall_results [OF assms] obtain s rest where "match_notification s = Some (n, rest)"
    by blast
  then show ?thesis by (rule match_notification_no_newline)
qed

lemma pair_candidates_mem:
  assumes "(course_id, offer_num, ns, vc) \<in> set (pair_candidates i ids notifications)"
  shows "vc = (case ns of Some n \<Rightarrow> lazy_code n | None \<Rightarrow> None)
       \<and> (\<forall>n. ns = Some n \<longrightarrow> n \<in> set notifications)"
  using assms
  by (induction i ids notifications rule: pair_candidates.induct)
    (auto simp: Let_def split: if_splits)

lemma pair_candidates_ids:
  "map (\<lambda>(course_id, offer_num, ns, vc). (course_id, offer_num)) (pair_candidates i ids notifications)
   = ids"
  by (induction i ids notifications rule: pair_candidates.induct) (simp_all add: Let_def)

lemma pair_candidates_nth:
  assumes "j < length ids"
  shows "pair_candidates i ids notifications ! j =
     (fst (ids ! j), snd (ids ! j),
      (if i + j < length notifications then Some (notifications ! (i + j)) else None),
      (if i + j < length notifications then lazy_code (notifications ! (i + j)) else None))"
  using assms
proof (induction i ids notifications arbitrary: j rule: pair_candidates.induct)
  case (1 i notifications)
  then show ?case by simp
next
  case (2 i course_id offer_num ids notifications)
  show ?case
  proof (cases j)
    case 0
    then show ?thesis by (simp add: Let_def)
  next
    case (Suc k)
    with "2.prems" have "k < length ids" by simp
    from "2.IH" [OF refl refl this] Suc show ?thesis by (simp add: Let_def)
  qed
qed

lemma process_entries_filter:
  "process_entries course_detail subject_code entries written
   = written @ concat (map (\<lambda>(course_id, offer_num, ns, vc).
        case course_detail subject_code course_id offer_num of Some row \<Rightarrow> [row] | None \<Rightarrow> [])
      (filter (\<lambda>(course_id, offer_num, ns, vc). vc = Some subject_code) entries))"
  by (induction course_detail subject_code entries written rule: process_entries.induct)
    (auto split: option.splits)

lemma candidate_code:
  assumes "(course_id, offer_num, ns, vc) \<in> set (extract_course_ids html)"
  shows "vc = Some code
     \<longleftrightarrow> (\<exists>n ds. ns = Some n \<and> n = code @ CHR ''-'' # ds \<and> ds \<noteq> [] \<and> list_all is_digit ds)"
proof -
  from assms pair_candidates_mem
  have vc: "vc = (case ns of Some n \<Rightarrow> lazy_code n | None \<Rightarrow> None)"
    and mem: "\<forall>n. ns = Some n \<longrightarrow> n \<in> set (findall match_notification html)"
    unfolding extract_course_ids_def Let_def by blast+
  show ?thesis
  proof (cases ns)
    case None
    with vc show ?thesis by simp
  next
    case (Some n)
    with mem have "CHR 0x0A \<notin> set n" using notifications_no_newline by blast
    from lazy_code_no_newline [OF this, of code] vc Some show ?thesis by simp
  qed
qed

lemma pair_candidates_notifications:
  "map (\<lambda>(course_id, offer_num, ns, vc). ns) (pair_candidates i ids notifications)
   = map (\<lambda>j. if j < length notifications then Some (notifications ! j) else None)
       [i ..< i + length ids]"
proof (induction i ids notifications rule: pair_candidates.induct)
  case (1 i notifications)
  then show ?case by simp
next
  case (2 i course_id offer_num ids notifications)
  have "[i ..< i + Suc (length ids)] = i # [Suc i ..< i + Suc (length ids)]"
    by (rule upt_conv_Cons) simp
  then have "[i ..< i + length ((course_id, offer_num) # ids)] = i # [Suc i ..< Suc i + length ids]"
    by simp
  with "2.IH" [OF refl refl] show ?case by (simp add: Let_def del: upt_Suc)
qed

lemma extract_course_ids_example:
  "extract_course_ids example_html =
     [(''104533'', ''1'', Some ''CS-1101'', Some ''CS''),
      (''104600'', ''2'', Some ''MATH-1300'', Some ''MATH''),
      (''104700'', ''1'', None, None)]"
  by code_simp

text \<open>
  C5: for every subject and every search-results document, the rows written for the
  subject come exactly from the candidates whose verification code equals the subject's
  short code, in document order; every other candidate, and every candidate without a
  code, contributes no row. The notification string of a candidate is the one at the
  candidate's index when there is one, and its code equals the short code exactly when
  the notification string is the short code followed by a trailing "-<number>".
\<close>

theorem verification_code_filter:
  "process_entries course_detail subject_code (extract_course_ids html) written
     = written @ concat (map (\<lambda>(course_id, offer_num, ns, vc).
          case course_detail subject_code course_id offer_num of Some row \<Rightarrow> [row] | None \<Rightarrow> [])
        (filter (\<lambda>(course_id, offer_num, ns, vc). vc = Some subject_code)
           (extract_course_ids html)))
   \<and> map (\<lambda>(course_id, offer_num, ns, vc). ns) (extract_course_ids html)
     = map (\<lambda>j. if j < length (findall match_notification html)
                 then Some (findall match_notification html ! j) else None)
         [0 ..< length (findall match_course_id html)]
   \<and> list_all (\<lambda>(course_id, offer_num, ns, vc).
         vc = Some subject_code
         \<longleftrightarrow> (\<exists>n ds. ns = Some n \<and> n = subject_code @ CHR ''-'' # ds
                    \<and> ds \<noteq> [] \<and> list_all is_digit ds))
       (extract_course_ids html)"
proof -
  have "map (\<lambda>(course_id, offer_num, ns, vc). ns) (extract_course_ids html)
     = map (\<lambda>j. if j < length (findall match_notification html)
                 then Some (findall match_notification html ! j) else None)
         [0 ..< length (findall match_course_id html)]"
    using pair_candidates_notifications
      [of 0 "findall match_course_id html" "findall match_notification html"]
    by (simp add: extract_course_ids_def Let_def)
  moreover have "list_all (\<lambda>(course_id, offer_num, ns, vc).
         vc = Some subject_code
         \<longleftrightarrow> (\<exists>n ds. ns = Some n \<and> n = subject_code @ CHR ''-'' # ds
                    \<and> ds \<noteq> [] \<and> list_all is_digit ds))
       (extract_course_ids html)"
  proof -
    have "\<forall>x \<in> set (extract_course_ids html).
        (\<lambda>(course_id, offer_num, ns, vc).
         vc = Some subject_code
         \<longleftrightarrow> (\<exists>n ds. ns = Some n \<and> n = subject_code @ CHR ''-'' # ds
                    \<and> ds \<noteq> [] \<and> list_all is_digit ds)) x"
    proof
      fix x assume x: "x \<in> set (extract_course_ids html)"
      obtain course_id offer_num ns vc where t: "x = (course_id, offer_num, ns, vc)"
        by (cases x) auto
      from x candidate_code [of course_id offer_num ns vc html subject_code]
      show "(\<lambda>(course_id, offer_num, ns, vc).
         vc = Some subject_code
         \<longleftrightarrow> (\<exists>n ds. ns = Some n \<and> n = subject_code @ CHR ''-'' # ds
                    \<and> ds \<noteq> [] \<and> list_all is_digit ds)) x"
        unfolding t by simp
    qed
    then show ?thesis by (simp only: list_all_iff)
  qed
  ultimately show ?thesis using process_entries_filter by blast
qed

theorem verification_code_filter_witness:
  "process_entries (\<lambda>subject_code course_id offer_num. Some (subject_code, course_id, offer_num))
     ''CS'' (extract_course_ids example_html) []
   = [(''CS'', ''104533'', ''1'')]
   \<and> process_entries (\<lambda>subject_code course_id offer_num. Some (subject_code, course_id, offer_num))
     ''MATH'' (extract_course_ids example_html) []
   = [(''MATH'', ''104600'', ''2'')]
   \<and> process_entries (\<lambda>subject_code course_id offer_num. Some (subject_code, course_id, offer_num))
     ''CS-1101'' (extract_course_ids example_html) []
   = []"
  using
    verification_code_filter [of "\<lambda>subject_code course_id offer_num. Some (subject_code, course_id, offer_num)"
      "''CS''" example_html "[]"]
    verification_code_filter [of "\<lambda>subject_code course_id offer_num. Some (subject_code, course_id, offer_num)"
      "''MATH''" example_html "[]"]
    verification_code_filter [of "\<lambda>subject_code course_id offer_num. Some (subject_code, course_id, offer_num)"
      "''CS-1101''" example_html "[]"]
  unfolding extract_course_ids_example by simp

text \<open>
  C10: candidate extraction returns one candidate per (course_id, offer_number) pattern
  match, in document order; a candidate whose index is beyond the list of notification
  strings has no notification string and no verification code, and the loop of
  \<open>main\<close> writes no row for it, whatever the subject's short code.
\<close>

theorem candidates_beyond_notifications:
  "map (\<lambda>(course_id, offer_num, ns, vc). (course_id, offer_num)) (extract_course_ids html)
     = findall match_course_id html
   \<and> (\<forall>i. length (findall match_notification html) \<le> i
          \<and> i < length (findall match_course_id html) \<longrightarrow>
        extract_course_ids html ! i
          = (fst (findall match_course_id html ! i), snd (findall match_course_id html ! i),
             None, None)
        \<and> (\<forall>course_detail subject_code written.
              process_entries course_detail subject_code [extract_course_ids html ! i] written
              = written))"
proof -
  have ids: "map (\<lambda>(course_id, offer_num, ns, vc). (course_id, offer_num)) (extract_course_ids html)
     = findall match_course_id html"
    by (simp add: extract_course_ids_def Let_def pair_candidates_ids)
  have beyond: "extract_course_ids html ! i
          = (fst (findall match_course_id html ! i), snd (findall match_course_id html ! i),
             None, None)
        \<and> (\<forall>course_detail subject_code written.
              process_entries course_detail subject_code [extract_course_ids html ! i] written
              = written)"
    if "length (findall match_notification html) \<le> i"
      and "i < length (findall match_course_id html)" for i
  proof -
    from that have "extract_course_ids html ! i
          = (fst (findall match_course_id html ! i), snd (findall match_course_id html ! i),
             None, None)"
      by (simp add: extract_course_ids_def Let_def pair_candidates_nth)
    then show ?thesis by simp
  qed
  from ids beyond show ?thesis by blast
qed

theorem candidates_beyond_notifications_witness:
  "map (\<lambda>(course_id, offer_num, ns, vc). (course_id, offer_num)) (extract_course_ids example_html)
     = [(''104533'', ''1''), (''104600'', ''2''), (''104700'', ''1'')]
   \<and> length (findall match_notification example_html) = 2
   \<and> findall match_course_id example_html
     = [(''104533'', ''1''), (''104600'', ''2''), (''104700'', ''1'')]
   \<and> extract_course_ids example_html ! 2 = (''104700'', ''1'', None, None)
   \<and> process_entries (\<lambda>subject_code course_id offer_num. Some (subject_code, course_id, offer_num))
        ''CS'' [extract_course_ids example_html ! 2] [] = []"
proof -
  have n: "length (findall match_notification example_html) = 2" by code_simp
  have i: "findall match_course_id example_html
     = [(''104533'', ''1''), (''104600'', ''2''), (''104700'', ''1'')]" by code_simp
  from candidates_beyond_notifications [of example_html]
  have a: "map (\<lambda>(course_id, offer_num, ns, vc). (course_id, offer_num))
        (extract_course_ids example_html) = findall match_course_id example_html"
    and b: "length (findall match_notification example_html) \<le> 2
          \<and> 2 < length (findall match_course_id example_html) \<longrightarrow>
        extract_course_ids example_html ! 2
          = (fst (findall match_course_id example_html ! 2),
             snd (findall match_course_id example_html ! 2), None, None)
        \<and> (\<forall>course_detail subject_code written.
              process_entries course_detail subject_code [extract_course_ids example_html ! 2] written
              = written)"
    by blast+
  from n i have "length (findall match_notification example_html) \<le> 2
          \<and> 2 < length (findall match_course_id example_html)" by simp
  with b have cd: "extract_course_ids example_html ! 2
          = (fst (findall match_course_id example_html ! 2),
             snd (findall match_course_id example_html ! 2), None, None)
        \<and> (\<forall>course_detail subject_code written.
              process_entries course_detail subject_code [extract_course_ids example_html ! 2] written
              = written)" by (rule mp)
  from cd have c0: "extract_course_ids example_html ! 2
          = (fst (findall match_course_id example_html ! 2),
             snd (findall match_course_id example_html ! 2), None, None)" by (rule conjunct1)
  have "findall match_course_id example_html ! 2 = (''104700'', ''1'')" unfolding i by simp
  with c0 have c: "extract_course_ids example_html ! 2 = (''104700'', ''1'', None, None)"
    by simp
  from cd have d: "process_entries
        (\<lambda>subject_code course_id offer_num. Some (subject_code, course_id, offer_num))
        ''CS'' [extract_course_ids example_html ! 2] [] = []" by blast
  from a have a': "map (\<lambda>(course_id, offer_num, ns, vc). (course_id, offer_num))
        (extract_course_ids example_html)
        = [(''104533'', ''1''), (''104600'', ''2''), (''104700'', ''1'')]"
    unfolding i .
  from a' n i c d show ?thesis by (intro conjI)
qed

subsection \<open>Class sections\<close>

lemma detail_state_cases:
  obtains school career component hours where
    "foldl (detail_row_step float_of) (None, None, None, None) rows
     = (school, career, component, hours)"
  by (cases "foldl (detail_row_step float_of) (None, None, None, None) rows") auto

lemma extract_class_details_keys:
  "map fst (extract_class_details float_of page)
   = (case detail_panel page of
        None \<Rightarrow> []
      | Some rows \<Rightarrow> [''school_code'', ''career_code'', ''component_code'', ''units_earned''])"
proof (cases "detail_panel page")
  case None
  then show ?thesis by (simp add: extract_class_details_def)
next
  case (Some rows)
  obtain school career component hours where
    "foldl (detail_row_step float_of) (None, None, None, None) rows
     = (school, career, component, hours)"
    by (rule detail_state_cases)
  with Some show ?thesis by (simp add: extract_class_details_def dict_display_def)
qed

lemma header_columns_display:
  assumes "map fst details = [] \<or>
           map fst details = [''school_code'', ''career_code'', ''component_code'', ''units_earned'']"
  shows "dict_display []
           ((''class_number'', v1) # (''display_name'', v2) # (''long_title'', v3) #
            (''subject'', v4) # (''catalog_number'', v5) # (''section_number'', v6) # details)
         = (''class_number'', v1) # (''display_name'', v2) # (''long_title'', v3) #
           (''subject'', v4) # (''catalog_number'', v5) # (''section_number'', v6) # details"
proof -
  from assms consider "details = []"
    | a b c d where "details = [(''school_code'', a), (''career_code'', b),
                                (''component_code'', c), (''units_earned'', d)]"
    by (auto simp: map_eq_Cons_conv)
  then show ?thesis by cases (simp_all add: dict_display_def)
qed

lemma extract_class_details_keys_cases:
  "map fst (extract_class_details float_of page) = [] \<or>
   map fst (extract_class_details float_of page)
     = [''school_code'', ''career_code'', ''component_code'', ''units_earned'']"
  by (simp add: extract_class_details_keys split: option.splits)

lemma scrape_try_parsed:
  assumes "fetch n = Inr resp" and "contains ''classSectionDetailDialog'' resp"
    and "parse resp = Inr page" and "h1 page = Some t"
    and "parse_class_header (strip t) = Some hdr"
  shows "scrape_try fetch parse float_of n =
     Inr (Some ([(''class_number'', JStr (str_nat n)),
                 (''display_name'', JStr (display_name hdr)),
                 (''long_title'', JStr (long_title hdr)),
                 (''subject'', JStr (subject hdr)),
                 (''catalog_number'', JStr (catalog_number hdr)),
                 (''section_number'', JStr (section_number hdr))]
                @ extract_class_details float_of page))"
  using assms
  by (simp add: scrape_try_def Let_def
      header_columns_display [OF extract_class_details_keys_cases])

lemma scrape_class_section_of_try:
  "scrape_class_section fetch parse float_of n
   = (case scrape_try fetch parse float_of n of Inl e \<Rightarrow> None | Inr r \<Rightarrow> r)"
  by (simp add: scrape_class_section_def split: sum.splits exn.splits)

lemma scan_classes_concat:
  "scan_classes fetch parse float_of ns results
   = results @ concat (map (\<lambda>n. case scrape_class_section fetch parse float_of n of
                                   Some r \<Rightarrow> if r \<noteq> [] then [r] else []
                                 | None \<Rightarrow> []) ns)"
  by (induction ns arbitrary: results) (simp_all split: option.splits)

text \<open>
  The per-id scrape returns \<open>None\<close> when the request raises, when the response lacks
  the marker, when parsing raises, when the page has no \<open>h1\<close> and when the header does
  not parse; otherwise it returns the six header columns followed by what
  \<open>extract_class_details\<close> returns. It has no other outcome, so no exception leaves it,
  and the scan over a list of class numbers collects the records of the ids that gave
  one, whatever the other ids did.
\<close>

theorem scrape_class_section_absorbs:
  "(\<forall>e. fetch n = Inl e \<longrightarrow> scrape_class_section fetch parse float_of n = None)
   \<and> (\<forall>resp. fetch n = Inr resp \<and> \<not> contains ''classSectionDetailDialog'' resp
         \<longrightarrow> scrape_class_section fetch parse float_of n = None)
   \<and> (\<forall>resp e. fetch n = Inr resp \<and> contains ''classSectionDetailDialog'' resp
         \<and> parse resp = Inl e
         \<longrightarrow> scrape_class_section fetch parse float_of n = None)
   \<and> (\<forall>resp page. fetch n = Inr resp \<and> contains ''classSectionDetailDialog'' resp
         \<and> parse resp = Inr page \<and> h1 page = None
         \<longrightarrow> scrape_class_section fetch parse float_of n = None)
   \<and> (\<forall>resp page t. fetch n = Inr resp \<and> contains ''classSectionDetailDialog'' resp
         \<and> parse resp = Inr page \<and> h1 page = Some t \<and> parse_class_header (strip t) = None
         \<longrightarrow> scrape_class_section fetch parse float_of n = None)
   \<and> (\<forall>resp page t hdr. fetch n = Inr resp \<and> contains ''classSectionDetailDialog'' resp
         \<and> parse resp = Inr page \<and> h1 page = Some t \<and> parse_class_header (strip t) = Some hdr
         \<longrightarrow> scrape_class_section fetch parse float_of n =
             Some ([(''class_number'', JStr (str_nat n)),
                    (''display_name'', JStr (display_name hdr)),
                    (''long_title'', JStr (long_title hdr)),
                    (''subject'', JStr (subject hdr)),
                    (''catalog_number'', JStr (catalog_number hdr)),
                    (''section_number'', JStr (section_number hdr))]
                   @ extract_class_details float_of page))
   \<and> scan_classes fetch parse float_of ns results
       = results @ concat (map (\<lambda>n. case scrape_class_section fetch parse float_of n of
                                       Some r \<Rightarrow> [r] | None \<Rightarrow> []) ns)"
proof -
  have a: "scrape_class_section fetch parse float_of n = None" if "fetch n = Inl e" for e
    using that by (simp add: scrape_class_section_of_try scrape_try_def)
  have b: "scrape_class_section fetch parse float_of n = None"
    if "fetch n = Inr resp" "\<not> contains ''classSectionDetailDialog'' resp" for resp
    using that by (simp add: scrape_class_section_of_try scrape_try_def)
  have c: "scrape_class_section fetch parse float_of n = None"
    if "fetch n = Inr resp" "contains ''classSectionDetailDialog'' resp" "parse resp = Inl e"
    for resp e
    using that by (simp add: scrape_class_section_of_try scrape_try_def)
  have d: "scrape_class_section fetch parse float_of n = None"
    if "fetch n = Inr resp" "contains ''classSectionDetailDialog'' resp" "parse resp = Inr page"
      "h1 page = None" for resp page
    using that by (simp add: scrape_class_section_of_try scrape_try_def)
  have e: "scrape_class_section fetch parse float_of n = None"
    if "fetch n = Inr resp" "contains ''classSectionDetailDialog'' resp" "parse resp = Inr page"
      "h1 page = Some t" "parse_class_header (strip t) = None" for resp page t
    using that by (simp add: scrape_class_section_of_try scrape_try_def)
  have f: "scrape_class_section fetch parse float_of n =
             Some ([(''class_number'', JStr (str_nat n)),
                    (''display_name'', JStr (display_name hdr)),
                    (''long_title'', JStr (long_title hdr)),
                    (''subject'', JStr (subject hdr)),
                    (''catalog_number'', JStr (catalog_number hdr)),
                    (''section_number'', JStr (section_number hdr))]
                   @ extract_class_details float_of page)"
    if "fetch n = Inr resp" "contains ''classSectionDetailDialog'' resp" "parse resp = Inr page"
      "h1 page = Some t" "parse_class_header (strip t) = Some hdr" for resp page t hdr
    using scrape_try_parsed [of fetch n resp parse page t hdr float_of] that
    by (simp add: scrape_class_section_of_try)
  have nonempty: "r \<noteq> []" if "scrape_class_section fetch parse float_of m = Some r" for m r
  proof -
    from that have "scrape_try fetch parse float_of m = Inr (Some r)"
      by (auto simp: scrape_class_section_of_try split: sum.splits)
    then show ?thesis
      by (auto simp: scrape_try_def bind_err_def Let_def
          header_columns_display [OF extract_class_details_keys_cases]
          split: sum.splits if_splits option.splits)
  qed
  have g: "scan_classes fetch parse float_of ns results
       = results @ concat (map (\<lambda>n. case scrape_class_section fetch parse float_of n of
                                       Some r \<Rightarrow> [r] | None \<Rightarrow> []) ns)"
  proof -
    have "(\<lambda>n. case scrape_class_section fetch parse float_of n of
                 Some r \<Rightarrow> if r \<noteq> [] then [r] else [] | None \<Rightarrow> [])
        = (\<lambda>n. case scrape_class_section fetch parse float_of n of
                 Some r \<Rightarrow> [r] | None \<Rightarrow> [])"
      using nonempty by (auto split: option.splits)
    then show ?thesis by (simp add: scan_classes_concat)
  qed
  from a b c d e f g show ?thesis by blast
qed

lemma scrape_without_panel:
  "scrape_class_section (\<lambda>n. Inr marker_text) (\<lambda>t. Inr page_without_panel) (\<lambda>s. None) 1000
   = Some [(''class_number'', JStr ''1000''), (''display_name'', JStr ''CS-1101''),
           (''long_title'', JStr ''Intro to Computing''), (''subject'', JStr ''CS''),
           (''catalog_number'', JStr ''1101''), (''section_number'', JStr ''01'')]"
  by code_simp

text \<open>
  C6: every record of a table is to contain every column of the table, with nulls for
  missing values. The class-section scrape breaks this: for a page with the marker and
  the heading "CS-1101-01 : Intro to Computing" and no detail panel,
  \<open>extract_class_details\<close> returns the empty dict, and the record has the six header
  columns only; \<open>school_code\<close>, \<open>career_code\<close>, \<open>component_code\<close> and \<open>units_earned\<close>
  are not keys of it.
\<close>

theorem class_record_without_panel_lacks_columns:
  "\<exists>r. scrape_class_section (\<lambda>n. Inr marker_text) (\<lambda>t. Inr page_without_panel) (\<lambda>s. None) 1000
        = Some r
     \<and> map fst r = [''class_number'', ''display_name'', ''long_title'', ''subject'',
                     ''catalog_number'', ''section_number'']
     \<and> map_of r ''school_code'' = None
     \<and> map_of r ''career_code'' = None
     \<and> map_of r ''component_code'' = None
     \<and> map_of r ''units_earned'' = None
     \<and> map fst r \<noteq> class_section_columns"
  unfolding scrape_without_panel by (simp add: class_section_columns_def)

text \<open>
  C8: the per-id scrape is to return a complete record or nothing. On the same page
  without a detail panel it returns a record of six of the ten columns.
\<close>

theorem scrape_returns_incomplete_record:
  "\<exists>r. scrape_class_section (\<lambda>n. Inr marker_text) (\<lambda>t. Inr page_without_panel) (\<lambda>s. None) 1000
        = Some r
     \<and> length r = 6
     \<and> length class_section_columns = 10
     \<and> \<not> set class_section_columns \<subseteq> fst ` set r"
  unfolding scrape_without_panel by (simp add: class_section_columns_def)

theorem scrape_class_section_absorbs_witness:
  "scrape_class_section
       (\<lambda>n. if n = 1000 then Inr marker_text else Inl RequestException)
       (\<lambda>t. Inr page_with_panel)
       (\<lambda>s. if s = ''3.0'' then Some (Finite 3) else None) 1001 = None
   \<and> scrape_class_section
       (\<lambda>n. if n = 1000 then Inr marker_text else Inl RequestException)
       (\<lambda>t. Inr page_with_panel)
       (\<lambda>s. if s = ''3.0'' then Some (Finite 3) else None) 1000
     = Some [(''class_number'', JStr ''1000''), (''display_name'', JStr ''CS-1101''),
             (''long_title'', JStr ''Intro to Computing''), (''subject'', JStr ''CS''),
             (''catalog_number'', JStr ''1101''), (''section_number'', JStr ''01''),
             (''school_code'', JStr ''ENGIN''), (''career_code'', JStr ''UGRD''),
             (''component_code'', JStr ''LEC''), (''units_earned'', JFloat (Finite 3))]
   \<and> scan_classes
       (\<lambda>n. if n = 1000 then Inr marker_text else Inl RequestException)
       (\<lambda>t. Inr page_with_panel)
       (\<lambda>s. if s = ''3.0'' then Some (Finite 3) else None) [999, 1000, 1001] []
     = [[(''class_number'', JStr ''1000''), (''display_name'', JStr ''CS-1101''),
         (''long_title'', JStr ''Intro to Computing''), (''subject'', JStr ''CS''),
         (''catalog_number'', JStr ''1101''), (''section_number'', JStr ''01''),
         (''school_code'', JStr ''ENGIN''), (''career_code'', JStr ''UGRD''),
         (''component_code'', JStr ''LEC''), (''units_earned'', JFloat (Finite 3))]]"
proof -
  let ?fetch = "\<lambda>n::nat. if n = 1000 then Inr marker_text else Inl RequestException"
  let ?parse = "\<lambda>t::string. (Inr page_with_panel :: exn + soup)"
  let ?float = "\<lambda>s. if s = ''3.0'' then Some (Finite 3) else None"
  have e0: "scrape_class_section ?fetch ?parse ?float 999 = None"
    using scrape_class_section_absorbs [of ?fetch 999 ?parse ?float "[]" "[]"] by simp
  have e1: "scrape_class_section ?fetch ?parse ?float 1001 = None"
    using scrape_class_section_absorbs [of ?fetch 1001 ?parse ?float "[]" "[]"] by simp
  have e2: "scrape_class_section ?fetch ?parse ?float 1000
     = Some [(''class_number'', JStr ''1000''), (''display_name'', JStr ''CS-1101''),
             (''long_title'', JStr ''Intro to Computing''), (''subject'', JStr ''CS''),
             (''catalog_number'', JStr ''1101''), (''section_number'', JStr ''01''),
             (''school_code'', JStr ''ENGIN''), (''career_code'', JStr ''UGRD''),
             (''component_code'', JStr ''LEC''), (''units_earned'', JFloat (Finite 3))]"
    by code_simp
  have "scan_classes ?fetch ?parse ?float [999, 1000, 1001] []
      = [] @ concat (map (\<lambda>n. case scrape_class_section ?fetch ?parse ?float n of
                                       Some r \<Rightarrow> [r] | None \<Rightarrow> []) [999, 1000, 1001])"
    using scrape_class_section_absorbs [of ?fetch 1000 ?parse ?float "[999, 1000, 1001]" "[]"]
    by blast
  then have e3: "scan_classes ?fetch ?parse ?float [999, 1000, 1001] []
     = [[(''class_number'', JStr ''1000''), (''display_name'', JStr ''CS-1101''),
         (''long_title'', JStr ''Intro to Computing''), (''subject'', JStr ''CS''),
         (''catalog_number'', JStr ''1101''), (''section_number'', JStr ''01''),
         (''school_code'', JStr ''ENGIN''), (''career_code'', JStr ''UGRD''),
         (''component_code'', JStr ''LEC''), (''units_earned'', JFloat (Finite 3))]]"
    by (simp add: e0 e1 e2)
  from e1 e2 e3 show ?thesis by (intro conjI)
qed

lemma detail_rows_columns:
  "row \<in> set (detail_rows g r l) \<Longrightarrow> map fst row = detail_fieldnames"
  by (auto simp: detail_rows_def line_metadata_def course_fields_def null_course_fields_def
      detail_fieldnames_def split: if_splits)

lemma structure_row_columns:
  "set (map fst (structure_row g r l)) = set structure_fieldnames
   \<and> distinct (map fst (structure_row g r l))"
  by (auto simp: structure_row_def structure_fieldnames_def)

text \<open>
  Where the column set is fixed: every row of the detail normalizer has the eighteen
  columns of its table in order, every row of the structure normalizer the twelve columns
  of its table, and a class-section record built from a page that has a detail panel the
  ten columns of its table.
\<close>

theorem fixed_columns_where_complete:
  "(wf_document doc \<longrightarrow>
      (\<exists>rows. convert_requirements_to_csv doc = Inr rows
         \<and> list_all (\<lambda>row. map fst row = detail_fieldnames) rows)
    \<and> (\<exists>rows. extract_requirement_structure doc = Inr rows
         \<and> list_all (\<lambda>row. set (map fst row) = set structure_fieldnames
                          \<and> distinct (map fst row)) rows))
   \<and> (fetch n = Inr resp \<and> parse resp = Inr page \<and> detail_panel page \<noteq> None
        \<and> scrape_class_section fetch parse float_of n = Some record
      \<longrightarrow> map fst record = class_section_columns)"
proof -
  have d: "\<exists>rows. convert_requirements_to_csv doc = Inr rows
         \<and> list_all (\<lambda>row. map fst row = detail_fieldnames) rows" if "wf_document doc"
  proof -
    have "list_all (\<lambda>row. map fst row = detail_fieldnames)
            (concat (map (\<lambda>(g, r, l). detail_rows g r l) (doc_lines doc)))"
      by (auto simp: list_all_iff detail_rows_columns)
    with convert_requirements_to_csv_wf [OF that] show ?thesis by blast
  qed
  have s: "\<exists>rows. extract_requirement_structure doc = Inr rows
         \<and> list_all (\<lambda>row. set (map fst row) = set structure_fieldnames
                          \<and> distinct (map fst row)) rows" if "wf_document doc"
  proof -
    have "list_all (\<lambda>row. set (map fst row) = set structure_fieldnames \<and> distinct (map fst row))
            (map (\<lambda>(g, r, l). structure_row g r l) (doc_lines doc))"
      unfolding list_all_iff
    proof
      fix row assume "row \<in> set (map (\<lambda>(g, r, l). structure_row g r l) (doc_lines doc))"
      then obtain g r l where "row = structure_row g r l" by auto
      then show "set (map fst row) = set structure_fieldnames \<and> distinct (map fst row)"
        using structure_row_columns [of g r l] by (simp only:)
    qed
    with extract_requirement_structure_wf [OF that] show ?thesis by blast
  qed
  have c: "map fst record = class_section_columns"
    if f: "fetch n = Inr resp" and p: "parse resp = Inr page" and dp: "detail_panel page \<noteq> None"
      and r: "scrape_class_section fetch parse float_of n = Some record"
  proof -
    from r have t: "scrape_try fetch parse float_of n = Inr (Some record)"
      by (auto simp: scrape_class_section_of_try split: sum.splits)
    from t f p have m: "contains ''classSectionDetailDialog'' resp"
      by (auto simp: scrape_try_def split: if_splits)
    from t f p m obtain t' where h: "h1 page = Some t'"
      by (auto simp: scrape_try_def split: option.splits)
    from t f p m h obtain hdr where ph: "parse_class_header (strip t') = Some hdr"
      by (auto simp: scrape_try_def Let_def split: option.splits)
    from scrape_try_parsed [of fetch n resp parse page t' hdr float_of] f m p h ph t
    have "record = [(''class_number'', JStr (str_nat n)),
                 (''display_name'', JStr (display_name hdr)),
                 (''long_title'', JStr (long_title hdr)),
                 (''subject'', JStr (subject hdr)),
                 (''catalog_number'', JStr (catalog_number hdr)),
                 (''section_number'', JStr (section_number hdr))]
                @ extract_class_details float_of page" by simp
    moreover from dp have "map fst (extract_class_details float_of page)
        = [''school_code'', ''career_code'', ''component_code'', ''units_earned'']"
      by (auto simp: extract_class_details_keys split: option.splits)
    ultimately show ?thesis by (simp add: class_section_columns_def)
  qed
  from d s c show ?thesis by blast
qed

theorem fixed_columns_where_complete_witness:
  "(\<exists>rows. convert_requirements_to_csv example_document = Inr rows
         \<and> list_all (\<lambda>row. map fst row = detail_fieldnames) rows)
   \<and> (\<exists>rows. extract_requirement_structure example_document = Inr rows
         \<and> list_all (\<lambda>row. set (map fst row) = set structure_fieldnames
                          \<and> distinct (map fst row)) rows)
   \<and> (\<exists>record. scrape_class_section (\<lambda>n. Inr marker_text) (\<lambda>t. Inr page_with_panel)
         (\<lambda>s. None) 1000 = Some record
       \<and> map fst record = class_section_columns)"
proof -
  have r: "scrape_class_section (\<lambda>n. Inr marker_text) (\<lambda>t. Inr page_with_panel) (\<lambda>s. None) 1000
     = Some [(''class_number'', JStr ''1000''), (''display_name'', JStr ''CS-1101''),
             (''long_title'', JStr ''Intro to Computing''), (''subject'', JStr ''CS''),
             (''catalog_number'', JStr ''1101''), (''section_number'', JStr ''01''),
             (''school_code'', JStr ''ENGIN''), (''career_code'', JStr ''UGRD''),
             (''component_code'', JStr ''LEC''), (''units_earned'', JNull)]"
    by code_simp
  have dp: "detail_panel page_with_panel \<noteq> None" by (simp add: page_with_panel_def)
  from fixed_columns_where_complete [of example_document "\<lambda>n. Inr marker_text" 1000 marker_text
      "\<lambda>t. Inr page_with_panel" page_with_panel "\<lambda>s. None"
      "[(''class_number'', JStr ''1000''), (''display_name'', JStr ''CS-1101''),
             (''long_title'', JStr ''Intro to Computing''), (''subject'', JStr ''CS''),
             (''catalog_number'', JStr ''1101''), (''section_number'', JStr ''01''),
             (''school_code'', JStr ''ENGIN''), (''career_code'', JStr ''UGRD''),
             (''component_code'', JStr ''LEC''), (''units_earned'', JNull)]"]
    wf_example_document r dp
  show ?thesis by auto
qed

end
